theory Spec2Isabelle
  imports Main "HOL-Library.Sublist"
begin

section \<open>The domain substitution script generator (utils/make\_domsub\_script.py)\<close>

text \<open>
  The generator reads two text lists (substitution rules and file paths), translates the
  rules from Python's group references to Perl's, and writes a shell script built from a
  fixed template. It refuses to run when an input is missing or the output exists.

  Modelling decisions.
  \<^item> A Python \<open>str\<close> is a \<open>string\<close>; a \<open>char\<close> stands for the code point of the same
    number, so the model covers text whose code points lie below 256. In that range the
    regular expression class \<open>\d\<close> is exactly \<open>0\<close> to \<open>9\<close>, and \<open>str.splitlines\<close> breaks at
    the eight characters of \<open>is_linebreak\<close> (beyond the range it also breaks at U+2028 and
    U+2029).
  \<^item> The file system is a partial map from paths to nodes: a regular file with its bytes, or
    a directory. Links are left out. Output is written as on POSIX, where text mode does
    not translate \<open>\n\<close>.
  \<^item> The code passes no encoding to \<open>read_text\<close> and \<open>open\<close>, so both use the encoding of the
    locale. The world carries that codec as two functions, from bytes to text and back,
    which fail on what the encoding cannot represent.
  \<^item> The world says which paths may not be read, what \<open>open(p, 'w')\<close> raises if it raises, and
    how many bytes the device still takes. These are the failures of the calls after the
    three guards.
  \<^item> The world also carries a trace of the file system calls made, in order, so that
    statements about what happens before a read or a write can be made.
  \<^item> Exceptions are values: every call returns \<open>error + result\<close> together with the world.
\<close>

subsection \<open>Characters\<close>

definition LF :: char where "LF = CHR 0x0A"
definition CR :: char where "CR = CHR 0x0D"
definition TAB :: char where "TAB = CHR 0x09"
definition BSL :: char where "BSL = CHR 0x5C"
definition SQ :: char where "SQ = CHR 0x27"
definition DQ :: char where "DQ = CHR 0x22"

text \<open>The line boundaries of \<open>str.splitlines\<close> among the code points below 256:
  \<open>\n\<close>, \<open>\r\<close>, \<open>\v\<close>, \<open>\f\<close>, \<open>\x1c\<close>, \<open>\x1d\<close>, \<open>\x1e\<close> and \<open>\x85\<close>.\<close>

definition is_linebreak :: "char \<Rightarrow> bool" where
  "is_linebreak c \<longleftrightarrow>
     c = CHR 0x0A \<or> c = CHR 0x0D \<or> c = CHR 0x0B \<or> c = CHR 0x0C \<or>
     c = CHR 0x1C \<or> c = CHR 0x1D \<or> c = CHR 0x1E \<or> c = CHR 0x85"

text \<open>The class \<open>\d\<close> of the \<open>re\<close> module, on code points below 256.\<close>

definition is_digit :: "char \<Rightarrow> bool" where
  "is_digit c \<longleftrightarrow> c \<in> set ''0123456789''"

text \<open>\<open>str.isspace\<close> on code points below 256.\<close>

definition isspace :: "char \<Rightarrow> bool" where
  "isspace c \<longleftrightarrow>
     c = CHR '' '' \<or> c = CHR 0x09 \<or> c = CHR 0x0A \<or> c = CHR 0x0B \<or> c = CHR 0x0C \<or>
     c = CHR 0x0D \<or> c = CHR 0x1C \<or> c = CHR 0x1D \<or> c = CHR 0x1E \<or> c = CHR 0x1F \<or>
     c = CHR 0x85 \<or> c = CHR 0xA0"

subsection \<open>Library functions of Python used by the generator\<close>

text \<open>Reading in text mode with the default \<open>newline=None\<close>: \<open>\r\n\<close> and a lone \<open>\r\<close>
  arrive as \<open>\n\<close>.\<close>

fun universal_newlines :: "string \<Rightarrow> string" where
  "universal_newlines [] = []"
| "universal_newlines (c # cs) =
     (if c = CR then
        (case cs of
           [] \<Rightarrow> [LF]
         | d # ds \<Rightarrow> if d = LF then LF # universal_newlines ds else LF # universal_newlines cs)
      else c # universal_newlines cs)"

text \<open>\<open>str.splitlines()\<close>: the lines without their boundaries; \<open>\r\n\<close> is one boundary, and
  a boundary at the very end does not open a further, empty line.\<close>

fun splitlines :: "string \<Rightarrow> string list" where
  "splitlines [] = []"
| "splitlines (c # cs) =
     (if is_linebreak c then
        (case cs of
           [] \<Rightarrow> [[]]
         | d # ds \<Rightarrow> if c = CR \<and> d = LF then [] # splitlines ds else [] # splitlines cs)
      else
        (case splitlines cs of
           [] \<Rightarrow> [[c]]
         | l # ls \<Rightarrow> (c # l) # ls))"

text \<open>\<open>filter(len, xs)\<close>: the elements whose length is not zero.\<close>

definition filter_len :: "string list \<Rightarrow> string list" where
  "filter_len xs = filter (\<lambda>x. length x \<noteq> 0) xs"

text \<open>\<open>sep.join(xs)\<close>.\<close>

fun join :: "string \<Rightarrow> string list \<Rightarrow> string" where
  "join sep [] = []"
| "join sep [x] = x"
| "join sep (x # y # ys) = x @ sep @ join sep (y # ys)"

text \<open>\<open>'%d' % n\<close> for a length \<open>n\<close>: its decimal digits.\<close>

fun format_d :: "nat \<Rightarrow> string" where
  "format_d n =
     (if n < 10 then [''0123456789'' ! n]
      else format_d (n div 10) @ [''0123456789'' ! (n mod 10)])"

declare format_d.simps [simp del]

text \<open>
  \<open>re.sub(r'\\g<(\d+)>', r'${\1}', x)\<close>. The pattern is a backslash, \<open>g<\<close>, one or more digits
  and \<open>>\<close>. \<open>match_group s\<close> is the match anchored at the start of \<open>s\<close>: the digits of group 1
  and the text after the match. The digits are taken greedily; giving one back cannot help,
  since the character after a shorter run is a digit and not \<open>>\<close>.
\<close>

definition match_group :: "string \<Rightarrow> (string \<times> string) option" where
  "match_group s =
     (case s of
        c1 # c2 # c3 # rest \<Rightarrow>
          if c1 = BSL \<and> c2 = CHR ''g'' \<and> c3 = CHR ''<'' then
            (let ds = takeWhile is_digit rest in
             if ds = [] then None
             else (case dropWhile is_digit rest of
                     [] \<Rightarrow> None
                   | e # after \<Rightarrow> if e = CHR ''>'' then Some (ds, after) else None))
          else None
      | _ \<Rightarrow> None)"

text \<open>\<open>re.sub\<close> scans from the left; at each position it replaces a match by \<open>${digits}\<close> and
  goes on after it, or copies one character.\<close>

function re_sub_group :: "string \<Rightarrow> string" where
  "re_sub_group [] = []"
| "re_sub_group (c # cs) =
     (case match_group (c # cs) of
        Some (ds, after) \<Rightarrow> ''${'' @ ds @ ''}'' @ re_sub_group after
      | None \<Rightarrow> c # re_sub_group cs)"
  by pat_completeness auto
termination
proof (relation "measure length")
  fix c cs x2 ds after
  assume "match_group (c # cs) = Some x2" and "(ds, after) = x2"
  then have m: "match_group (c # cs) = Some (ds, after)" by simp
  then obtain c2 c3 rest where s: "cs = c2 # c3 # rest"
    by (auto simp: match_group_def split: list.splits)
  from m s obtain e where "dropWhile is_digit rest = e # after"
    by (auto simp: match_group_def Let_def split: list.splits if_splits)
  then have "length (e # after) \<le> length rest"
    by (metis length_dropWhile_le)
  with s show "(after, c # cs) \<in> measure length" by simp
qed simp_all

subsection \<open>The template\<close>

definition unlines :: "string list \<Rightarrow> string" where
  "unlines ls = concat (map (\<lambda>l. l @ [LF]) ls)"

text \<open>The template up to the first \<open>%s\<close>.\<close>

definition template_1 :: string where
  "template_1 = unlines
     [''#!/bin/sh -e'',
      ''#'',
      ''# This script performs domain substitution on the Chromium source files.'',
      ''#'',
      ''# Generated by make_domsub_script.py, part of the ungoogled-chromium project:'',
      ''# https://github.com/ungoogled-software/ungoogled-chromium.git'',
      ''#'',
      '''',
      ''# Check that we are inside the Chromium source tree'',
      ''test -f build/config/compiler/BUILD.gn'',
      '''',
      ''# These filenames may contain spaces and/or other unusual characters'',
      ''print_file_list() {'',
      TAB # ''cat <<'' @ [SQ] @ ''__END__'' @ [SQ]]"

text \<open>From the first \<open>%s\<close> to \<open>%d\<close>.\<close>

definition template_2 :: string where
  "template_2 = LF # unlines
     [''__END__'',
      ''}'',
      '''',
      ''echo '' @ [DQ] @ ''Creating backup archive ...'' @ [DQ],
      '''',
      ''backup=domain-substitution.orig.tar'',
      ''print_file_list | tar cf $backup --verbatim-files-from --files-from=-'',
      '''']
     @ ''echo '' @ [DQ] @ ''Applying ungoogled-chromium domain substitution to ''"

text \<open>From \<open>%d\<close> to the second \<open>%s\<close>.\<close>

definition template_3 :: string where
  "template_3 = '' files ...'' @ [DQ, LF] @ unlines
     ['''',
      ''print_file_list | xargs -d '' @ [SQ, BSL] @ ''n'' @ [SQ] @ '' perl -0777 -C0 -pwi -e '' @ [SQ]]"

text \<open>After the second \<open>%s\<close>.\<close>

definition template_4 :: string where
  "template_4 = LF # unlines [[SQ], '''', ''# end'']"

text \<open>\<open>template % (files_list_str, n, perl_replace_list_str)\<close>.\<close>

definition render :: "string \<Rightarrow> nat \<Rightarrow> string \<Rightarrow> string" where
  "render files_list_str n perl_replace_list_str =
     template_1 @ files_list_str @ template_2 @ format_d n @ template_3
       @ perl_replace_list_str @ template_4"

subsection \<open>The file system and the locale\<close>

type_synonym path = string

datatype node = File string | Dir

datatype error =
    FileNotFoundError path
  | FileExistsError path
  | IsADirectoryError path
  | PermissionError path
  | UnicodeDecodeError path
  | UnicodeEncodeError path
  | OSError path

datatype io_event = Exists path | ReadText path | OpenWrite path | Write path string

record world =
  files :: "path \<rightharpoonup> node"
  trace :: "io_event list"
  decode :: "string \<Rightarrow> string option"
  encode :: "string \<Rightarrow> string option"
  read_denied :: "path \<Rightarrow> bool"
  open_error :: "path \<Rightarrow> error option"
  free_space :: "nat option"

text \<open>\<open>Path.exists()\<close>: true of files and of directories.\<close>

definition path_exists :: "path \<Rightarrow> world \<Rightarrow> bool \<times> world" where
  "path_exists p w = (files w p \<noteq> None, w\<lparr>trace := trace w @ [Exists p]\<rparr>)"

text \<open>\<open>Path.read_text()\<close>: opens the file, decodes its bytes with the encoding of the locale
  and translates the line ends.\<close>

definition read_text :: "path \<Rightarrow> world \<Rightarrow> (error + string) \<times> world" where
  "read_text p w =
     (let w' = w\<lparr>trace := trace w @ [ReadText p]\<rparr> in
      case files w p of
        None \<Rightarrow> (Inl (FileNotFoundError p), w')
      | Some Dir \<Rightarrow> (Inl (IsADirectoryError p), w')
      | Some (File bytes) \<Rightarrow>
          if read_denied w p then (Inl (PermissionError p), w')
          else (case decode w bytes of
                  None \<Rightarrow> (Inl (UnicodeDecodeError p), w')
                | Some txt \<Rightarrow> (Inr (universal_newlines txt), w')))"

text \<open>\<open>open(p, 'w')\<close>: raises what the world says it raises (the directory of \<open>p\<close> is missing,
  or may not be written), and otherwise creates the file, or empties it.\<close>

definition open_w :: "path \<Rightarrow> world \<Rightarrow> (error + unit) \<times> world" where
  "open_w p w =
     (let w' = w\<lparr>trace := trace w @ [OpenWrite p]\<rparr> in
      case open_error w p of
        Some e \<Rightarrow> (Inl e, w')
      | None \<Rightarrow>
          (case files w p of
             Some Dir \<Rightarrow> (Inl (IsADirectoryError p), w')
           | _ \<Rightarrow> (Inr (), w'\<lparr>files := (files w)(p \<mapsto> File [])\<rparr>)))"

text \<open>\<open>out.write(s)\<close> and the closing of the file opened at \<open>p\<close>: the text is encoded as a
  whole, and the bytes go to the file as far as the device takes them.\<close>

definition out_write :: "path \<Rightarrow> string \<Rightarrow> world \<Rightarrow> (error + unit) \<times> world" where
  "out_write p s w =
     (let w' = w\<lparr>trace := trace w @ [Write p s]\<rparr>;
          old = (case files w p of Some (File b) \<Rightarrow> b | _ \<Rightarrow> [])
      in case encode w s of
           None \<Rightarrow> (Inl (UnicodeEncodeError p), w')
         | Some bytes \<Rightarrow>
             (case free_space w of
                None \<Rightarrow> (Inr (), w'\<lparr>files := (files w)(p \<mapsto> File (old @ bytes))\<rparr>)
              | Some n \<Rightarrow>
                  if length bytes \<le> n
                  then (Inr (), w'\<lparr>files := (files w)(p \<mapsto> File (old @ bytes))\<rparr>)
                  else (Inl (OSError p),
                        w'\<lparr>files := (files w)(p \<mapsto> File (old @ take n bytes))\<rparr>)))"

text \<open>Two encodings a locale can have, on the texts of the model: ISO-8859-1, where every
  byte is the code point of the same number, and ASCII, which has the bytes below 128 only.\<close>

definition latin1 :: "string \<Rightarrow> string option" where
  "latin1 s = Some s"

definition ascii :: "string \<Rightarrow> string option" where
  "ascii s = (if list_all (\<lambda>c. (of_char c :: nat) < 128) s then Some s else None)"

subsection \<open>The generator\<close>

text \<open>The list comprehension building \<open>perl_replace_list\<close>.\<close>

definition perl_replace_list :: "string list \<Rightarrow> string list" where
  "perl_replace_list regex_list = map (\<lambda>x. ''s#'' @ re_sub_group x @ ''#g'') regex_list"

text \<open>\<open>tuple(filter(len, text.splitlines()))\<close>, as done for both lists.\<close>

definition read_list :: "string \<Rightarrow> string list" where
  "read_list text = filter_len (splitlines text)"

text \<open>One line of \<open>perl_replace_list_str\<close>: the f-string around an element \<open>x\<close>.\<close>

definition statement :: "string \<Rightarrow> string" where
  "statement x = ''    '' @ x @ '';''"

definition perl_replace_list_str :: "string list \<Rightarrow> string" where
  "perl_replace_list_str regex_list = join [LF] (map statement (perl_replace_list regex_list))"

definition files_list_str :: "string list \<Rightarrow> string" where
  "files_list_str files_list = join [LF] files_list"

text \<open>The text written, from the two texts read.\<close>

definition script_of :: "string \<Rightarrow> string \<Rightarrow> string" where
  "script_of regex_text files_text =
     (let regex_list = read_list regex_text;
          files_list = read_list files_text
      in render (files_list_str files_list) (length files_list)
           (perl_replace_list_str regex_list))"

definition make_domain_substitution_script ::
  "path \<Rightarrow> path \<Rightarrow> path \<Rightarrow> world \<Rightarrow> (error + unit) \<times> world" where
  "make_domain_substitution_script regex_path files_path output_path w0 =
     (let (e1, w1) = path_exists regex_path w0 in
      if \<not> e1 then (Inl (FileNotFoundError regex_path), w1)
      else
        (let (e2, w2) = path_exists files_path w1 in
         if \<not> e2 then (Inl (FileNotFoundError files_path), w2)
         else
           (let (e3, w3) = path_exists output_path w2 in
            if e3 then (Inl (FileExistsError output_path), w3)
            else
              (let (r4, w4) = read_text regex_path w3 in
               case r4 of
                 Inl err \<Rightarrow> (Inl err, w4)
               | Inr regex_text \<Rightarrow>
                   (let (r5, w5) = read_text files_path w4 in
                    case r5 of
                      Inl err \<Rightarrow> (Inl err, w5)
                    | Inr files_text \<Rightarrow>
                        (let (r6, w6) = open_w output_path w5 in
                         case r6 of
                           Inl err \<Rightarrow> (Inl err, w6)
                         | Inr u \<Rightarrow>
                             out_write output_path (script_of regex_text files_text) w6))))))"

subsection \<open>Reading the emitted script\<close>

text \<open>The lines of a text as the shell and the tools of the emitted script see them: split
  at \<open>\n\<close> only.\<close>

fun text_lines :: "string \<Rightarrow> string list" where
  "text_lines [] = [[]]"
| "text_lines (c # cs) =
     (if c = LF then [] # text_lines cs
      else (case text_lines cs of
              [] \<Rightarrow> [[c]]
            | l # ls \<Rightarrow> (c # l) # ls))"

text \<open>The line of the template that opens the here-document of \<open>print_file_list\<close>.\<close>

definition heredoc_open :: string where
  "heredoc_open = TAB # ''cat <<'' @ [SQ] @ ''__END__'' @ [SQ]"

text \<open>The literal block that \<open>print_file_list\<close> prints: the lines after the opening line, up
  to the first line that is the delimiter \<open>__END__\<close>.\<close>

definition file_list_block :: "string \<Rightarrow> string list" where
  "file_list_block script =
     takeWhile (\<lambda>l. l \<noteq> ''__END__'')
       (drop 1 (dropWhile (\<lambda>l. l \<noteq> heredoc_open) (text_lines script)))"

text \<open>A match of the pattern with the digits \<open>ds\<close>, and what the replacement template makes
  of it.\<close>

definition group_ref_python :: "string \<Rightarrow> string" where
  "group_ref_python ds = BSL # ''g<'' @ ds @ ''>''"

definition group_ref_perl :: "string \<Rightarrow> string" where
  "group_ref_perl ds = ''${'' @ ds @ ''}''"

text \<open>The line of the template that announces the substitution, for \<open>n\<close> files.\<close>

definition progress_line :: "nat \<Rightarrow> string" where
  "progress_line n =
     ''echo '' @ [DQ] @ ''Applying ungoogled-chromium domain substitution to '' @ format_d n
       @ '' files ...'' @ [DQ]"

subsection \<open>Example worlds\<close>

text \<open>A world with the given files where nothing goes wrong: an ISO-8859-1 locale, every
  file readable, every path open for writing, no limit on the device.\<close>

definition quiet_world :: "(path \<rightharpoonup> node) \<Rightarrow> world" where
  "quiet_world fs =
     \<lparr>files = fs, trace = [], decode = latin1, encode = latin1,
      read_denied = (\<lambda>p. False), open_error = (\<lambda>p. None), free_space = None\<rparr>"

definition w_fresh :: world where
  "w_fresh = quiet_world
     [''domain_regex.list'' \<mapsto> File (''foo#bar'' @ [LF]),
      ''domain_substitution.list'' \<mapsto> File (''src/config.txt'' @ [LF])]"

definition w_demo :: world where
  "w_demo = quiet_world
     [''domain_regex.list'' \<mapsto> File (''foo#bar'' @ [LF]),
      ''domain_substitution.list'' \<mapsto> File (''src/config.txt'' @ [LF]),
      ''gen.sh'' \<mapsto> File ''old'']"

definition w_no_rules :: world where
  "w_no_rules = quiet_world [''gen.sh'' \<mapsto> File ''old'']"

definition w_no_files :: world where
  "w_no_files = quiet_world [''domain_regex.list'' \<mapsto> File (''foo#bar'' @ [LF])]"

definition w_other :: world where
  "w_other =
     \<lparr>files = [''r2'' \<mapsto> File (''foo#bar'' @ [LF]),
                ''f2'' \<mapsto> File (''src/config.txt'' @ [LF]),
                ''unrelated'' \<mapsto> File ''x'',
                ''some_dir'' \<mapsto> Dir],
      trace = [Exists ''unrelated''], decode = latin1, encode = latin1,
      read_denied = (\<lambda>p. p = ''unrelated''), open_error = (\<lambda>p. None),
      free_space = None\<rparr>"


definition w_no_entries :: world where
  "w_no_entries = quiet_world
     [''domain_regex.list'' \<mapsto> File (''a#b'' @ [LF]),
      ''domain_substitution.list'' \<mapsto> File [LF, LF]]"

definition w_form_feed :: world where
  "w_form_feed = quiet_world
     [''domain_regex.list'' \<mapsto> File (''a#b'' @ [LF]),
      ''domain_substitution.list'' \<mapsto> File (''a'' @ [CHR 0x0C] @ ''b'' @ [LF])]"

definition w_rule_form_feed :: world where
  "w_rule_form_feed = quiet_world
     [''domain_regex.list'' \<mapsto> File (''a'' @ [CHR 0x0C] @ ''b#c'' @ [LF]),
      ''domain_substitution.list'' \<mapsto> File (''src/config.txt'' @ [LF])]"

definition w_form_feed_line :: world where
  "w_form_feed_line = quiet_world
     [''domain_regex.list'' \<mapsto> File (''a#b'' @ [LF]),
      ''domain_substitution.list'' \<mapsto> File (''x'' @ [LF, CHR 0x0C, LF, CHR 0x0B, LF] @ ''y'' @ [LF])]"

definition w_group_ref :: world where
  "w_group_ref = quiet_world
     [''domain_regex.list'' \<mapsto> File (''(x)y#'' @ [BSL] @ ''g<1>z'' @ [LF]),
      ''domain_substitution.list'' \<mapsto> File (''src/config.txt'' @ [LF])]"


text \<open>The world \<open>w_fresh\<close> where the directory of the output path \<open>nodir/gen.sh\<close> is missing.\<close>

definition w_no_dir :: world where
  "w_no_dir = w_fresh\<lparr>open_error :=
     (\<lambda>p. if p = ''nodir/gen.sh'' then Some (FileNotFoundError p) else None)\<rparr>"

text \<open>Two worlds with the same files, one path of which has the byte \<open>0xE9\<close>, under an
  ISO-8859-1 locale and under an ASCII locale.\<close>

definition cafe_files :: "path \<rightharpoonup> node" where
  "cafe_files =
     [''domain_regex.list'' \<mapsto> File (''a#b'' @ [LF]),
      ''domain_substitution.list'' \<mapsto> File (''caf'' @ [CHR 0xE9] @ ''.txt'' @ [LF])]"

definition w_cafe_latin1 :: world where
  "w_cafe_latin1 = quiet_world cafe_files"

definition w_cafe_ascii :: world where
  "w_cafe_ascii = (quiet_world cafe_files)\<lparr>decode := ascii, encode := ascii\<rparr>"

section \<open>Lines of the lists and of the emitted script\<close>

lemma text_lines_not_Nil: "text_lines s \<noteq> []"
  by (induction s) (auto split: list.splits)

lemma text_lines_single: "LF \<notin> set s \<Longrightarrow> text_lines s = [s]"
  by (induction s) auto

lemma text_lines_line:
  "LF \<notin> set l \<Longrightarrow> text_lines (l @ LF # rest) = l # text_lines rest"
  by (induction l) (auto simp: text_lines_not_Nil split: list.splits)

lemma text_lines_unlines:
  "\<forall>l \<in> set ls. LF \<notin> set l \<Longrightarrow> text_lines (unlines ls @ rest) = ls @ text_lines rest"
  by (induction ls) (auto simp: unlines_def text_lines_line)

lemma text_lines_join_then:
  "\<forall>x \<in> set xs. LF \<notin> set x \<Longrightarrow> xs \<noteq> [] \<Longrightarrow>
   text_lines (join [LF] xs @ LF # rest) = xs @ text_lines rest"
proof (induction xs)
  case Nil
  then show ?case by simp
next
  case (Cons x xs)
  show ?case
  proof (cases xs)
    case Nil
    with Cons.prems show ?thesis by (simp add: text_lines_line)
  next
    case (Cons y ys)
    with Cons.prems Cons.IH show ?thesis by (simp add: text_lines_line)
  qed
qed

lemma text_lines_join:
  "\<forall>x \<in> set xs. LF \<notin> set x \<Longrightarrow> xs \<noteq> [] \<Longrightarrow> text_lines (join [LF] xs) = xs"
proof (induction xs)
  case Nil
  then show ?case by simp
next
  case (Cons x xs)
  show ?case
  proof (cases xs)
    case Nil
    with Cons.prems show ?thesis by (simp add: text_lines_single)
  next
    case (Cons y ys)
    with Cons.prems Cons.IH show ?thesis by (simp add: text_lines_line)
  qed
qed

lemma is_linebreak_LF: "is_linebreak LF"
  by (simp add: is_linebreak_def LF_def)

lemma splitlines_no_linebreak:
  "l \<in> set (splitlines s) \<Longrightarrow> c \<in> set l \<Longrightarrow> \<not> is_linebreak c"
proof (induction s arbitrary: l rule: splitlines.induct)
  case 1
  then show ?case by simp
next
  case (2 a cs)
  show ?case
  proof (cases "is_linebreak a")
    case True
    show ?thesis
    proof (cases cs)
      case Nil
      with True "2.prems" show ?thesis by simp
    next
      case (Cons d ds)
      show ?thesis
      proof (cases "a = CR \<and> d = LF")
        case crlf: True
        with True Cons "2.prems" have "l = [] \<or> l \<in> set (splitlines ds)" by auto
        with "2.IH"(1)[OF True Cons crlf] "2.prems"(2) show ?thesis by auto
      next
        case False
        with True Cons "2.prems" have "l = [] \<or> l \<in> set (splitlines cs)" by auto
        with "2.IH"(2)[OF True Cons False] "2.prems"(2) show ?thesis by auto
      qed
    qed
  next
    case False
    show ?thesis
    proof (cases "splitlines cs")
      case Nil
      with False "2.prems" show ?thesis by auto
    next
      case (Cons l0 ls)
      with False "2.prems" have "l = a # l0 \<or> l \<in> set ls" by auto
      then show ?thesis
      proof
        assume "l = a # l0"
        with "2.prems"(2) have "c = a \<or> c \<in> set l0" by auto
        with False "2.IH"(3)[OF False, of l0] Cons show ?thesis by auto
      next
        assume "l \<in> set ls"
        with "2.IH"(3)[OF False, of l] Cons "2.prems"(2) show ?thesis by auto
      qed
    qed
  qed
qed

lemma read_list_no_LF: "l \<in> set (read_list s) \<Longrightarrow> LF \<notin> set l"
  using splitlines_no_linebreak is_linebreak_LF
  by (auto simp: read_list_def filter_len_def)

lemma match_group_SomeD:
  assumes "match_group s = Some (ds, after)"
  shows "s = BSL # ''g<'' @ ds @ ''>'' @ after \<and> ds \<noteq> [] \<and> (\<forall>c \<in> set ds. is_digit c)"
proof -
  from assms obtain rest where s: "s = BSL # CHR ''g'' # CHR ''<'' # rest"
    by (auto simp: match_group_def split: list.splits if_splits)
  with assms have ds: "ds = takeWhile is_digit rest" "ds \<noteq> []"
    and dr: "dropWhile is_digit rest = CHR ''>'' # after"
    by (auto simp: match_group_def Let_def split: list.splits if_splits)
  have "rest = takeWhile is_digit rest @ dropWhile is_digit rest" by simp
  with ds dr have "rest = ds @ ''>'' @ after" by simp
  moreover from ds have "\<forall>c \<in> set ds. is_digit c" by (auto dest: set_takeWhileD)
  ultimately show ?thesis using s ds by simp
qed

lemma is_digit_not_special:
  "is_digit c \<Longrightarrow> c \<noteq> LF \<and> c \<noteq> BSL \<and> c \<noteq> CHR ''>'' \<and> c \<noteq> CHR ''$''"
  by (auto simp: is_digit_def LF_def BSL_def)

lemma re_sub_group_set: "set (re_sub_group s) \<subseteq> set s \<union> set ''${}''"
proof (induction s rule: re_sub_group.induct)
  case 1
  show ?case by simp
next
  case (2 c cs)
  show ?case
  proof (cases "match_group (c # cs)")
    case None
    with 2 show ?thesis by auto
  next
    case (Some m)
    obtain ds after where m: "m = (ds, after)" by (cases m)
    from Some m have d: "c # cs = BSL # ''g<'' @ ds @ ''>'' @ after"
      using match_group_SomeD by blast
    have ih: "set (re_sub_group after) \<subseteq> set after \<union> set ''${}''"
      using 2(2)[OF Some m[symmetric]] .
    have "set ds \<subseteq> set (c # cs)" "set after \<subseteq> set (c # cs)"
      unfolding d by auto
    with ih have "set (''${'' @ ds @ ''}'' @ re_sub_group after) \<subseteq> set (c # cs) \<union> set ''${}''"
      by auto
    moreover have "re_sub_group (c # cs) = ''${'' @ ds @ ''}'' @ re_sub_group after"
      using Some m by simp
    ultimately show ?thesis by simp
  qed
qed

lemma statement_no_LF:
  assumes "LF \<notin> set r"
  shows "LF \<notin> set (statement (''s#'' @ re_sub_group r @ ''#g''))"
proof -
  have "LF \<notin> set ''${}''" by (simp add: LF_def)
  with assms re_sub_group_set[of r] have "LF \<notin> set (re_sub_group r)" by blast
  then show ?thesis by (simp add: statement_def LF_def)
qed

lemma statements_no_LF:
  "\<forall>x \<in> set (map statement (perl_replace_list (read_list s))). LF \<notin> set x"
proof
  fix x assume "x \<in> set (map statement (perl_replace_list (read_list s)))"
  then obtain r where r: "r \<in> set (read_list s)"
    and x: "x = statement (''s#'' @ re_sub_group r @ ''#g'')"
    by (auto simp: perl_replace_list_def)
  from r have "LF \<notin> set r" by (rule read_list_no_LF)
  with x show "LF \<notin> set x" by (simp only: statement_no_LF not_False_eq_True)
qed

lemma statements_map:
  "map statement (perl_replace_list rs) = map (\<lambda>r. ''    s#'' @ re_sub_group r @ ''#g;'') rs"
  by (induction rs) (simp_all add: perl_replace_list_def statement_def)

lemma filter_len_conv: "filter_len xs = filter (\<lambda>l. l \<noteq> []) xs"
  by (simp add: filter_len_def)

lemma script_of_unfolded:
  "script_of regex_text files_text =
     template_1 @ join [LF] (filter (\<lambda>l. l \<noteq> []) (splitlines files_text)) @ template_2
       @ format_d (length (filter (\<lambda>l. l \<noteq> []) (splitlines files_text))) @ template_3
       @ join [LF] (map (\<lambda>r. ''    s#'' @ re_sub_group r @ ''#g;'')
                     (filter (\<lambda>l. l \<noteq> []) (splitlines regex_text)))
       @ template_4"
  unfolding script_of_def Let_def render_def read_list_def files_list_str_def
    perl_replace_list_str_def statements_map filter_len_conv ..

lemma statement_block_text_lines:
  "read_list s \<noteq> [] \<Longrightarrow>
   text_lines (perl_replace_list_str (read_list s)) = map statement (perl_replace_list (read_list s))"
proof -
  assume "read_list s \<noteq> []"
  then have "map statement (perl_replace_list (read_list s)) \<noteq> []"
    by (simp add: perl_replace_list_def)
  then show ?thesis
    unfolding perl_replace_list_str_def using statements_no_LF text_lines_join by blast
qed

subsection \<open>The lines of a rendered script\<close>

lemma text_lines_template_1:
  "text_lines (template_1 @ rest) =
     [''#!/bin/sh -e'',
      ''#'',
      ''# This script performs domain substitution on the Chromium source files.'',
      ''#'',
      ''# Generated by make_domsub_script.py, part of the ungoogled-chromium project:'',
      ''# https://github.com/ungoogled-software/ungoogled-chromium.git'',
      ''#'',
      '''',
      ''# Check that we are inside the Chromium source tree'',
      ''test -f build/config/compiler/BUILD.gn'',
      '''',
      ''# These filenames may contain spaces and/or other unusual characters'',
      ''print_file_list() {'',
      heredoc_open] @ text_lines rest"
  unfolding template_1_def heredoc_open_def
  by (subst text_lines_unlines) (simp_all add: LF_def TAB_def SQ_def)

lemma format_d_no_LF: "LF \<notin> set (format_d n)"
proof (induction n rule: format_d.induct)
  case (1 n)
  have d: "LF \<noteq> ''0123456789'' ! k" if "k < 10" for k
  proof -
    from that have "k \<in> {0,1,2,3,4,5,6,7,8,9}" by auto
    then show ?thesis by (auto simp: LF_def)
  qed
  show ?case
  proof (cases "n < 10")
    case True
    then show ?thesis by (subst format_d.simps) (simp add: d)
  next
    case False
    with 1 have "LF \<notin> set (format_d (n div 10))" by simp
    moreover have "LF \<noteq> ''0123456789'' ! (n mod 10)" by (rule d) simp
    ultimately show ?thesis using False by (subst format_d.simps) simp
  qed
qed

lemma text_lines_template_2:
  "text_lines (template_2 @ format_d n @ template_3 @ rest) =
     [[], ''__END__'', ''}'', '''',
      ''echo '' @ [DQ] @ ''Creating backup archive ...'' @ [DQ],
      '''',
      ''backup=domain-substitution.orig.tar'',
      ''print_file_list | tar cf $backup --verbatim-files-from --files-from=-'',
      '''',
      progress_line n,
      '''',
      ''print_file_list | xargs -d '' @ [SQ, BSL] @ ''n'' @ [SQ] @ '' perl -0777 -C0 -pwi -e '' @ [SQ]]
     @ text_lines rest"
proof -
  have a: "template_2 @ format_d n @ template_3 @ rest
     = [] @ LF # unlines [''__END__'', ''}'', '''',
         ''echo '' @ [DQ] @ ''Creating backup archive ...'' @ [DQ],
         '''',
         ''backup=domain-substitution.orig.tar'',
         ''print_file_list | tar cf $backup --verbatim-files-from --files-from=-'',
         '''']
       @ (progress_line n @ LF # unlines ['''',
           ''print_file_list | xargs -d '' @ [SQ, BSL] @ ''n'' @ [SQ] @ '' perl -0777 -C0 -pwi -e '' @ [SQ]]
          @ rest)"
    by (simp add: template_2_def template_3_def progress_line_def)
  have p: "LF \<notin> set (progress_line n)"
    using format_d_no_LF[of n] by (simp add: progress_line_def LF_def DQ_def)
  show ?thesis
    unfolding a
    apply (subst text_lines_line, simp)
    apply (subst text_lines_unlines, simp add: LF_def DQ_def)
    apply (subst text_lines_line, rule p)
    apply (subst text_lines_unlines, simp add: LF_def SQ_def BSL_def)
    apply simp
    done
qed

lemma text_lines_list_then_template_2:
  assumes "\<forall>x \<in> set entries. LF \<notin> set x"
  shows "text_lines (files_list_str entries @ template_2 @ format_d n @ template_3 @ rest) =
     (if entries = [] then [[]] else entries) @
     [''__END__'', ''}'', '''',
      ''echo '' @ [DQ] @ ''Creating backup archive ...'' @ [DQ],
      '''',
      ''backup=domain-substitution.orig.tar'',
      ''print_file_list | tar cf $backup --verbatim-files-from --files-from=-'',
      '''',
      progress_line n,
      '''',
      ''print_file_list | xargs -d '' @ [SQ, BSL] @ ''n'' @ [SQ] @ '' perl -0777 -C0 -pwi -e '' @ [SQ]]
     @ text_lines rest"
proof -
  obtain z where z: "template_2 @ format_d n @ template_3 @ rest = LF # z"
    by (simp add: template_2_def)
  have "text_lines (LF # z) = [] # text_lines z" by simp
  with text_lines_template_2[of n rest] z have tz: "text_lines z =
     [''__END__'', ''}'', '''',
      ''echo '' @ [DQ] @ ''Creating backup archive ...'' @ [DQ],
      '''',
      ''backup=domain-substitution.orig.tar'',
      ''print_file_list | tar cf $backup --verbatim-files-from --files-from=-'',
      '''',
      progress_line n,
      '''',
      ''print_file_list | xargs -d '' @ [SQ, BSL] @ ''n'' @ [SQ] @ '' perl -0777 -C0 -pwi -e '' @ [SQ]]
     @ text_lines rest"
    by simp
  show ?thesis
  proof (cases "entries = []")
    case True
    then show ?thesis unfolding z files_list_str_def using tz by simp
  next
    case False
    with assms have "text_lines (join [LF] entries @ LF # z) = entries @ text_lines z"
      by (intro text_lines_join_then)
    with False show ?thesis unfolding z files_list_str_def using tz by simp
  qed
qed

lemma file_list_block_render:
  assumes "\<forall>x \<in> set entries. LF \<notin> set x"
  shows "file_list_block (render (files_list_str entries) n block) =
     takeWhile (\<lambda>l. l \<noteq> ''__END__'') (if entries = [] then [[]] else entries)"
proof -
  have ne: "\<forall>l \<in> set [''#!/bin/sh -e'',
      ''#'',
      ''# This script performs domain substitution on the Chromium source files.'',
      ''#'',
      ''# Generated by make_domsub_script.py, part of the ungoogled-chromium project:'',
      ''# https://github.com/ungoogled-software/ungoogled-chromium.git'',
      ''#'',
      '''',
      ''# Check that we are inside the Chromium source tree'',
      ''test -f build/config/compiler/BUILD.gn'',
      '''',
      ''# These filenames may contain spaces and/or other unusual characters'',
      ''print_file_list() {'']. l \<noteq> heredoc_open"
    by (simp add: heredoc_open_def TAB_def)
  have "drop 1 (dropWhile (\<lambda>l. l \<noteq> heredoc_open)
          (text_lines (render (files_list_str entries) n block)))
        = text_lines (files_list_str entries @ template_2 @ format_d n @ template_3
            @ block @ template_4)"
    unfolding render_def text_lines_template_1 using ne by simp
  then show ?thesis
    unfolding file_list_block_def text_lines_list_then_template_2[OF assms]
    by (simp add: takeWhile_tail)
qed

lemma progress_line_in_render:
  assumes "\<forall>x \<in> set entries. LF \<notin> set x"
  shows "progress_line n \<in> set (text_lines (render (files_list_str entries) n block))"
  unfolding render_def text_lines_template_1 text_lines_list_then_template_2[OF assms]
  by simp

section \<open>Group references\<close>

text \<open>What \<open>re.sub\<close> does to the occurrences of the pattern: each is replaced, and none is
  left or newly formed.\<close>

lemma group_ref_python_Cons: "group_ref_python ds @ b = BSL # CHR ''g'' # CHR ''<'' # ds @ CHR ''>'' # b"
  by (simp add: group_ref_python_def)

lemma not_digit_gt: "\<not> is_digit (CHR ''>'')"
  by (simp add: is_digit_def)

lemma match_group_ref:
  assumes "ds \<noteq> []" and "\<forall>c \<in> set ds. is_digit c"
  shows "match_group (group_ref_python ds @ b) = Some (ds, b)"
proof -
  from assms(2) have t: "takeWhile is_digit (ds @ CHR ''>'' # b) = ds"
    by (simp add: not_digit_gt)
  from assms(2) have d: "dropWhile is_digit (ds @ CHR ''>'' # b) = CHR ''>'' # b"
    by (simp add: not_digit_gt)
  show ?thesis
    unfolding group_ref_python_Cons match_group_def
    using assms(1) by (simp add: t d)
qed

lemma BSL_not_in_ref_tail:
  assumes "\<forall>c \<in> set ds. is_digit c"
  shows "BSL \<notin> set (''g<'' @ ds @ ''>'')"
  using assms is_digit_not_special by (auto simp: BSL_def)

lemma ref_after_prefix:
  assumes "BSL \<notin> set p" and "p @ t = a @ group_ref_python ds @ b"
  shows "\<exists>a'. t = a' @ group_ref_python ds @ b"
proof -
  from assms(2) obtain us where
    "(p = a @ us \<and> us @ t = group_ref_python ds @ b) \<or> (p @ us = a \<and> t = us @ group_ref_python ds @ b)"
    by (auto simp: append_eq_append_conv2)
  then show ?thesis
  proof
    assume c: "p = a @ us \<and> us @ t = group_ref_python ds @ b"
    show ?thesis
    proof (cases us)
      case Nil
      with c have "t = [] @ group_ref_python ds @ b" by simp
      then show ?thesis by blast
    next
      case (Cons u us')
      with c have "u = BSL" by (simp add: group_ref_python_Cons)
      with c Cons assms(1) show ?thesis by auto
    qed
  next
    assume "p @ us = a \<and> t = us @ group_ref_python ds @ b"
    then show ?thesis by blast
  qed
qed

lemma re_sub_group_translates:
  assumes "ds \<noteq> []" and "\<forall>c \<in> set ds. is_digit c"
  shows "s = a @ group_ref_python ds @ b \<Longrightarrow>
         \<exists>a'. re_sub_group s = a' @ group_ref_perl ds @ re_sub_group b"
proof (induction s arbitrary: a rule: re_sub_group.induct)
  case 1
  then show ?case by (simp add: group_ref_python_def)
next
  case (2 c cs)
  show ?case
  proof (cases a)
    case Nil
    with "2.prems" have "match_group (c # cs) = Some (ds, b)"
      using match_group_ref[OF assms] by simp
    then have "re_sub_group (c # cs) = [] @ group_ref_perl ds @ re_sub_group b"
      by (simp add: group_ref_perl_def)
    then show ?thesis by blast
  next
    case (Cons x a1)
    with "2.prems" have cs: "cs = a1 @ group_ref_python ds @ b" and x: "x = c" by simp_all
    show ?thesis
    proof (cases "match_group (c # cs)")
      case None
      from "2.IH"(1)[OF None cs] obtain a' where
        "re_sub_group cs = a' @ group_ref_perl ds @ re_sub_group b" by blast
      with None have "re_sub_group (c # cs) = (c # a') @ group_ref_perl ds @ re_sub_group b"
        by simp
      then show ?thesis by blast
    next
      case (Some m)
      obtain ds0 after where m: "m = (ds0, after)" by (cases m)
      from Some m have d: "c # cs = BSL # ''g<'' @ ds0 @ ''>'' @ after"
        and dig: "\<forall>c \<in> set ds0. is_digit c"
        using match_group_SomeD by blast+
      from d cs have "(''g<'' @ ds0 @ ''>'') @ after = a1 @ group_ref_python ds @ b" by simp
      with BSL_not_in_ref_tail[OF dig] obtain a2 where "after = a2 @ group_ref_python ds @ b"
        using ref_after_prefix by blast
      from "2.IH"(2)[OF Some m[symmetric] this] obtain a' where
        "re_sub_group after = a' @ group_ref_perl ds @ re_sub_group b" by blast
      with Some m have "re_sub_group (c # cs)
          = (''${'' @ ds0 @ ''}'' @ a') @ group_ref_perl ds @ re_sub_group b"
        by simp
      then show ?thesis by blast
    qed
  qed
qed

lemma re_sub_group_head:
  assumes "re_sub_group s = x # t" and "x \<noteq> CHR ''$''"
  shows "\<exists>s'. s = x # s' \<and> re_sub_group s' = t"
proof (cases s)
  case Nil
  with assms show ?thesis by simp
next
  case (Cons c cs)
  show ?thesis
  proof (cases "match_group (c # cs)")
    case None
    with assms Cons show ?thesis by simp
  next
    case (Some m)
    obtain ds0 after where "m = (ds0, after)" by (cases m)
    with Some assms Cons show ?thesis by simp
  qed
qed

lemma re_sub_group_digits_head:
  "\<forall>c \<in> set ds. is_digit c \<Longrightarrow> re_sub_group s = ds @ CHR ''>'' # t \<Longrightarrow>
   \<exists>s'. s = ds @ CHR ''>'' # s'"
proof (induction ds arbitrary: s)
  case Nil
  then have "re_sub_group s = CHR ''>'' # t" by simp
  then obtain s' where "s = CHR ''>'' # s'"
    using re_sub_group_head[of s "CHR ''>''" t] by auto
  then show ?case by simp
next
  case (Cons d ds)
  then have "is_digit d" by simp
  then have "d \<noteq> CHR ''$''" using is_digit_not_special by blast
  moreover from Cons.prems have "re_sub_group s = d # (ds @ CHR ''>'' # t)" by simp
  ultimately obtain s1 where s1: "s = d # s1" "re_sub_group s1 = ds @ CHR ''>'' # t"
    using re_sub_group_head by blast
  from Cons.IH[OF _ s1(2)] Cons.prems(1) obtain s' where "s1 = ds @ CHR ''>'' # s'" by auto
  with s1 show ?case by simp
qed

lemma re_sub_group_no_ref:
  assumes "ds \<noteq> []" and "\<forall>c \<in> set ds. is_digit c"
  shows "re_sub_group s \<noteq> a @ group_ref_python ds @ b"
proof (induction s arbitrary: a rule: re_sub_group.induct)
  case 1
  show ?case by (simp add: group_ref_python_def)
next
  case (2 c cs)
  show ?case
  proof (cases "match_group (c # cs)")
    case None
    then have out: "re_sub_group (c # cs) = c # re_sub_group cs" by simp
    show ?thesis
    proof
      assume eq: "re_sub_group (c # cs) = a @ group_ref_python ds @ b"
      show False
      proof (cases a)
        case Nil
        with eq out have c: "c = BSL"
          and r: "re_sub_group cs = CHR ''g'' # CHR ''<'' # ds @ CHR ''>'' # b"
          by (simp_all add: group_ref_python_Cons)
        from r obtain s1 where s1: "cs = CHR ''g'' # s1" "re_sub_group s1 = CHR ''<'' # ds @ CHR ''>'' # b"
          using re_sub_group_head[of cs "CHR ''g''"] by auto
        from s1(2) obtain s2 where s2: "s1 = CHR ''<'' # s2" "re_sub_group s2 = ds @ CHR ''>'' # b"
          using re_sub_group_head[of s1 "CHR ''<''"] by auto
        from re_sub_group_digits_head[OF assms(2) s2(2)] obtain s3 where "s2 = ds @ CHR ''>'' # s3"
          by blast
        with c s1 s2 have "c # cs = group_ref_python ds @ s3"
          by (simp add: group_ref_python_Cons)
        with match_group_ref[OF assms, of s3] None show False by simp
      next
        case (Cons x a1)
        with eq out have "re_sub_group cs = a1 @ group_ref_python ds @ b" by simp
        with "2.IH"(1)[OF None, of a1] show False by simp
      qed
    qed
  next
    case (Some m)
    obtain ds0 after where m: "m = (ds0, after)" by (cases m)
    from Some m have dig: "\<forall>c \<in> set ds0. is_digit c"
      using match_group_SomeD by blast
    from Some m have out: "re_sub_group (c # cs) = (''${'' @ ds0 @ ''}'') @ re_sub_group after"
      by simp
    have nb: "BSL \<notin> set (''${'' @ ds0 @ ''}'')"
      using dig is_digit_not_special by (auto simp: BSL_def)
    show ?thesis
    proof
      assume "re_sub_group (c # cs) = a @ group_ref_python ds @ b"
      with out have "(''${'' @ ds0 @ ''}'') @ re_sub_group after = a @ group_ref_python ds @ b"
        by simp
      from ref_after_prefix[OF nb this] obtain a' where
        "re_sub_group after = a' @ group_ref_python ds @ b" by blast
      with "2.IH"(2)[OF Some m[symmetric], of a'] show False by simp
    qed
  qed
qed

lemma statement_has_perl_ref:
  assumes "ds \<noteq> []" and "\<forall>c \<in> set ds. is_digit c" and "sublist (group_ref_python ds) r"
  shows "sublist (group_ref_perl ds) (''    s#'' @ re_sub_group r @ ''#g;'')"
proof -
  from assms(3) obtain a b where "r = a @ group_ref_python ds @ b"
    by (auto simp: sublist_def)
  from re_sub_group_translates[OF assms(1,2) this] obtain a' where
    "re_sub_group r = a' @ group_ref_perl ds @ re_sub_group b" by blast
  then have "''    s#'' @ re_sub_group r @ ''#g;''
      = (''    s#'' @ a') @ group_ref_perl ds @ (re_sub_group b @ ''#g;'')"
    by simp
  then show ?thesis unfolding sublist_def by blast
qed

lemma statement_no_python_ref:
  assumes "ds \<noteq> []" and "\<forall>c \<in> set ds. is_digit c"
  shows "\<not> sublist (group_ref_python ds) (''    s#'' @ re_sub_group r @ ''#g;'')"
proof
  assume "sublist (group_ref_python ds) (''    s#'' @ re_sub_group r @ ''#g;'')"
  then obtain a b where "''    s#'' @ (re_sub_group r @ ''#g;'') = a @ group_ref_python ds @ b"
    by (auto simp: sublist_def)
  moreover have "BSL \<notin> set ''    s#''" by (simp add: BSL_def)
  ultimately obtain a' where eq: "re_sub_group r @ ''#g;'' = a' @ group_ref_python ds @ b"
    using ref_after_prefix by blast
  then have "re_sub_group r @ ''#g;'' = (a' @ group_ref_python ds) @ b" by simp
  then obtain us where
    "(re_sub_group r = (a' @ group_ref_python ds) @ us \<and> us @ ''#g;'' = b)
     \<or> (re_sub_group r @ us = a' @ group_ref_python ds \<and> ''#g;'' = us @ b)"
    unfolding append_eq_append_conv2 by blast
  then show False
  proof
    assume "re_sub_group r = (a' @ group_ref_python ds) @ us \<and> us @ ''#g;'' = b"
    then have "re_sub_group r = a' @ group_ref_python ds @ us" by simp
    with re_sub_group_no_ref[OF assms] show False by blast
  next
    assume c: "re_sub_group r @ us = a' @ group_ref_python ds \<and> ''#g;'' = us @ b"
    show False
    proof (cases "us = []")
      case True
      with c have "re_sub_group r = a' @ group_ref_python ds @ []" by simp
      with re_sub_group_no_ref[OF assms] show False by blast
    next
      case False
      from c have "last (re_sub_group r @ us) = last (a' @ group_ref_python ds)" by simp
      with False have "last us = CHR ''>''" by (simp add: group_ref_python_def)
      moreover from False have "last us \<in> set us" by simp
      moreover from c have "set us \<subseteq> set ''#g;''"
        by (metis set_append Un_upper1)
      ultimately show False by auto
    qed
  qed
qed


section \<open>The ways an invocation ends\<close>

lemma gen_regex_missing:
  "files w rp = None \<Longrightarrow>
   make_domain_substitution_script rp fp op w =
     (Inl (FileNotFoundError rp), w\<lparr>trace := trace w @ [Exists rp]\<rparr>)"
  by (simp add: make_domain_substitution_script_def path_exists_def)

lemma gen_files_missing:
  "files w rp = Some a \<Longrightarrow> files w fp = None \<Longrightarrow>
   make_domain_substitution_script rp fp op w =
     (Inl (FileNotFoundError fp), w\<lparr>trace := trace w @ [Exists rp, Exists fp]\<rparr>)"
  by (simp add: make_domain_substitution_script_def path_exists_def)

lemma gen_output_exists:
  "files w rp = Some a \<Longrightarrow> files w fp = Some b \<Longrightarrow> files w op = Some c \<Longrightarrow>
   make_domain_substitution_script rp fp op w =
     (Inl (FileExistsError op), w\<lparr>trace := trace w @ [Exists rp, Exists fp, Exists op]\<rparr>)"
  by (simp add: make_domain_substitution_script_def path_exists_def)

text \<open>Past the guards, the invocation is the two reads, the open and the write.\<close>

lemma gen_past_guards:
  assumes "files w rp = Some a" and "files w fp = Some b" and "files w op = None"
  shows "make_domain_substitution_script rp fp op w =
     (let (r4, w4) = read_text rp (w\<lparr>trace := trace w @ [Exists rp, Exists fp, Exists op]\<rparr>) in
      case r4 of
        Inl err \<Rightarrow> (Inl err, w4)
      | Inr regex_text \<Rightarrow>
          (let (r5, w5) = read_text fp w4 in
           case r5 of
             Inl err \<Rightarrow> (Inl err, w5)
           | Inr files_text \<Rightarrow>
               (let (r6, w6) = open_w op w5 in
                case r6 of
                  Inl err \<Rightarrow> (Inl err, w6)
                | Inr u \<Rightarrow> out_write op (script_of regex_text files_text) w6)))"
  using assms by (simp add: make_domain_substitution_script_def path_exists_def)

lemma gen_success:
  assumes "files w rp = Some (File rb)" and "files w fp = Some (File fb)"
    and "files w op = None"
    and "\<not> read_denied w rp" and "\<not> read_denied w fp"
    and "decode w rb = Some rt" and "decode w fb = Some ft"
    and "open_error w op = None"
    and "encode w (script_of (universal_newlines rt) (universal_newlines ft)) = Some bytes"
    and "case free_space w of None \<Rightarrow> True | Some n \<Rightarrow> length bytes \<le> n"
  shows "make_domain_substitution_script rp fp op w =
     (Inr (),
      w\<lparr>files := (files w)(op \<mapsto> File bytes),
        trace := trace w @
          [Exists rp, Exists fp, Exists op, ReadText rp, ReadText fp, OpenWrite op,
           Write op (script_of (universal_newlines rt) (universal_newlines ft))]\<rparr>)"
  unfolding gen_past_guards[OF assms(1-3)]
  using assms
  by (simp add: read_text_def open_w_def out_write_def Let_def split: option.splits)

lemma gen_Inr_D:
  assumes "fst (make_domain_substitution_script rp fp op w) = Inr ()"
  shows "\<exists>rb fb rt ft bytes.
      files w rp = Some (File rb) \<and> files w fp = Some (File fb) \<and> files w op = None
    \<and> \<not> read_denied w rp \<and> \<not> read_denied w fp
    \<and> decode w rb = Some rt \<and> decode w fb = Some ft
    \<and> open_error w op = None
    \<and> encode w (script_of (universal_newlines rt) (universal_newlines ft)) = Some bytes
    \<and> (case free_space w of None \<Rightarrow> True | Some n \<Rightarrow> length bytes \<le> n)"
proof (cases "files w rp")
  case None
  with assms show ?thesis by (simp add: gen_regex_missing)
next
  case r: (Some a)
  show ?thesis
  proof (cases "files w fp")
    case None
    with assms r show ?thesis by (simp add: gen_files_missing)
  next
    case f: (Some b)
    show ?thesis
    proof (cases "files w op")
      case (Some c)
      with assms r f show ?thesis by (simp add: gen_output_exists)
    next
      case None
      from assms show ?thesis
        unfolding gen_past_guards[OF r f None]
        using r f None
        by (auto simp: read_text_def open_w_def out_write_def Let_def
            split: option.splits node.splits if_splits)
    qed
  qed
qed

lemma gen_Inl_frame:
  assumes "fst (make_domain_substitution_script rp fp op w) = Inl e"
  shows "files (snd (make_domain_substitution_script rp fp op w)) = files w
    \<or> (files w op = None
       \<and> (\<exists>s. Write op s \<in> set (trace (snd (make_domain_substitution_script rp fp op w))))
       \<and> (\<exists>part. files (snd (make_domain_substitution_script rp fp op w))
              = (files w)(op \<mapsto> File part)))"
proof (cases "files w rp")
  case None
  then show ?thesis by (simp add: gen_regex_missing)
next
  case r: (Some a)
  show ?thesis
  proof (cases "files w fp")
    case None
    with r show ?thesis by (simp add: gen_files_missing)
  next
    case f: (Some b)
    show ?thesis
    proof (cases "files w op")
      case (Some c)
      with r f show ?thesis by (simp add: gen_output_exists)
    next
      case None
      from assms show ?thesis
        unfolding gen_past_guards[OF r f None]
        using r f None
        by (auto simp: read_text_def open_w_def out_write_def Let_def
            split: option.splits node.splits if_splits)
    qed
  qed
qed

lemma gen_trace:
  "\<exists>evs. trace (snd (make_domain_substitution_script rp fp op w)) = trace w @ evs
     \<and> (\<forall>p s. OpenWrite p \<in> set evs \<or> Write p s \<in> set evs \<longrightarrow> p = op)
     \<and> ((\<forall>s. Write op s \<notin> set evs) \<longrightarrow>
          fst (make_domain_substitution_script rp fp op w) \<noteq> Inr ()
        \<and> files (snd (make_domain_substitution_script rp fp op w)) = files w)"
proof (cases "files w rp")
  case None
  then show ?thesis by (simp add: gen_regex_missing)
next
  case r: (Some a)
  show ?thesis
  proof (cases "files w fp")
    case None
    with r show ?thesis by (simp add: gen_files_missing)
  next
    case f: (Some b)
    show ?thesis
    proof (cases "files w op")
      case (Some c)
      with r f show ?thesis by (simp add: gen_output_exists)
    next
      case None
      show ?thesis
        unfolding gen_past_guards[OF r f None]
        using r f None
        by (auto simp: read_text_def open_w_def out_write_def Let_def
            split: option.splits node.splits if_splits)
    qed
  qed
qed

lemma gen_success_script:
  assumes "files w rp = Some (File rb)" and "decode w rb = Some rt"
    and "files w fp = Some (File fb)" and "decode w fb = Some ft"
    and "fst (make_domain_substitution_script rp fp op w) = Inr ()"
  shows "\<exists>bytes. encode w (script_of (universal_newlines rt) (universal_newlines ft)) = Some bytes
    \<and> files (snd (make_domain_substitution_script rp fp op w)) op = Some (File bytes)
    \<and> files w op = None"
proof -
  from gen_Inr_D[OF assms(5)] obtain rb' fb' rt' ft' bytes where d:
    "files w rp = Some (File rb')" "files w fp = Some (File fb')" "files w op = None"
    "\<not> read_denied w rp" "\<not> read_denied w fp"
    "decode w rb' = Some rt'" "decode w fb' = Some ft'"
    "open_error w op = None"
    "encode w (script_of (universal_newlines rt') (universal_newlines ft')) = Some bytes"
    "case free_space w of None \<Rightarrow> True | Some n \<Rightarrow> length bytes \<le> n"
    by blast
  from d(1,2,6,7) assms(1-4) have eq: "rb' = rb" "fb' = fb" "rt' = rt" "ft' = ft" by auto
  from gen_success[OF d] have "files (snd (make_domain_substitution_script rp fp op w)) op
      = Some (File bytes)"
    by simp
  with d(3,9) eq show ?thesis by blast
qed

lemma gen_quiet:
  assumes "fs rp = Some (File rb)" and "fs fp = Some (File fb)" and "fs op = None"
  shows "make_domain_substitution_script rp fp op (quiet_world fs) =
     (Inr (),
      (quiet_world fs)\<lparr>files := fs(op \<mapsto> File (script_of (universal_newlines rb) (universal_newlines fb))),
        trace := [Exists rp, Exists fp, Exists op, ReadText rp, ReadText fp, OpenWrite op,
           Write op (script_of (universal_newlines rb) (universal_newlines fb))]\<rparr>)"
proof -
  have "make_domain_substitution_script rp fp op (quiet_world fs) =
     (Inr (),
      (quiet_world fs)\<lparr>files := (files (quiet_world fs))(op \<mapsto>
          File (script_of (universal_newlines rb) (universal_newlines fb))),
        trace := trace (quiet_world fs) @
          [Exists rp, Exists fp, Exists op, ReadText rp, ReadText fp, OpenWrite op,
           Write op (script_of (universal_newlines rb) (universal_newlines fb))]\<rparr>)"
    by (rule gen_success[where rb = rb and fb = fb])
       (simp_all add: quiet_world_def latin1_def assms)
  then show ?thesis by (simp add: quiet_world_def)
qed

lemma script_of_example:
  "script_of (universal_newlines (''foo#bar'' @ [LF])) (universal_newlines (''src/config.txt'' @ [LF]))
     = template_1 @ ''src/config.txt'' @ template_2 @ ''1'' @ template_3 @ ''    s#foo#bar#g;''
         @ template_4"
  by (simp add: script_of_unfolded is_linebreak_def match_group_def format_d.simps
      LF_def CR_def BSL_def)

subsection \<open>The example worlds, run\<close>

lemma gen_w_fresh:
  "make_domain_substitution_script ''domain_regex.list'' ''domain_substitution.list'' ''gen.sh''
     w_fresh =
   (Inr (),
    w_fresh\<lparr>files := (files w_fresh)(''gen.sh'' \<mapsto>
        File (template_1 @ ''src/config.txt'' @ template_2 @ ''1'' @ template_3
                @ ''    s#foo#bar#g;'' @ template_4)),
      trace := [Exists ''domain_regex.list'', Exists ''domain_substitution.list'',
        Exists ''gen.sh'', ReadText ''domain_regex.list'', ReadText ''domain_substitution.list'',
        OpenWrite ''gen.sh'',
        Write ''gen.sh'' (template_1 @ ''src/config.txt'' @ template_2 @ ''1'' @ template_3
                @ ''    s#foo#bar#g;'' @ template_4)]\<rparr>)"
  unfolding w_fresh_def script_of_example[symmetric]
  by (subst gen_quiet[where rb = "''foo#bar'' @ [LF]" and fb = "''src/config.txt'' @ [LF]"])
     (simp_all add: quiet_world_def)

lemma gen_w_other:
  "fst (make_domain_substitution_script ''r2'' ''f2'' ''out2.sh'' w_other) = Inr ()"
proof -
  have "make_domain_substitution_script ''r2'' ''f2'' ''out2.sh'' w_other =
     (Inr (),
      w_other\<lparr>files := (files w_other)(''out2.sh'' \<mapsto>
          File (script_of (universal_newlines (''foo#bar'' @ [LF]))
                  (universal_newlines (''src/config.txt'' @ [LF])))),
        trace := trace w_other @
          [Exists ''r2'', Exists ''f2'', Exists ''out2.sh'', ReadText ''r2'', ReadText ''f2'',
           OpenWrite ''out2.sh'',
           Write ''out2.sh'' (script_of (universal_newlines (''foo#bar'' @ [LF]))
                  (universal_newlines (''src/config.txt'' @ [LF])))]\<rparr>)"
    by (intro gen_success[where rb = "''foo#bar'' @ [LF]" and fb = "''src/config.txt'' @ [LF]"])
       (simp_all add: w_other_def latin1_def script_of_example)
  then show ?thesis by simp
qed


lemma gen_w_no_entries:
  "make_domain_substitution_script ''domain_regex.list'' ''domain_substitution.list'' ''gen.sh''
     w_no_entries =
   (Inr (),
    w_no_entries\<lparr>files := (files w_no_entries)(''gen.sh'' \<mapsto>
        File (template_1 @ template_2 @ ''0'' @ template_3 @ ''    s#a#b#g;'' @ template_4)),
      trace := [Exists ''domain_regex.list'', Exists ''domain_substitution.list'',
        Exists ''gen.sh'', ReadText ''domain_regex.list'', ReadText ''domain_substitution.list'',
        OpenWrite ''gen.sh'',
        Write ''gen.sh'' (template_1 @ template_2 @ ''0'' @ template_3 @ ''    s#a#b#g;''
          @ template_4)]\<rparr>)"
proof -
  have s: "script_of (universal_newlines (''a#b'' @ [LF])) (universal_newlines [LF, LF])
      = template_1 @ template_2 @ ''0'' @ template_3 @ ''    s#a#b#g;'' @ template_4"
    by (simp add: script_of_unfolded is_linebreak_def match_group_def format_d.simps
        LF_def CR_def BSL_def)
  show ?thesis
    unfolding w_no_entries_def s[symmetric]
    by (subst gen_quiet[where rb = "''a#b'' @ [LF]" and fb = "[LF, LF]"])
       (simp_all add: quiet_world_def)
qed

lemma gen_w_group_ref:
  "make_domain_substitution_script ''domain_regex.list'' ''domain_substitution.list'' ''gen.sh''
     w_group_ref =
   (Inr (),
    w_group_ref\<lparr>files := (files w_group_ref)(''gen.sh'' \<mapsto>
        File (template_1 @ ''src/config.txt'' @ template_2 @ ''1'' @ template_3
                @ ''    s#(x)y#${1}z#g;'' @ template_4)),
      trace := [Exists ''domain_regex.list'', Exists ''domain_substitution.list'',
        Exists ''gen.sh'', ReadText ''domain_regex.list'', ReadText ''domain_substitution.list'',
        OpenWrite ''gen.sh'',
        Write ''gen.sh'' (template_1 @ ''src/config.txt'' @ template_2 @ ''1'' @ template_3
                @ ''    s#(x)y#${1}z#g;'' @ template_4)]\<rparr>)"
proof -
  have s: "script_of (universal_newlines (''(x)y#'' @ [BSL] @ ''g<1>z'' @ [LF]))
        (universal_newlines (''src/config.txt'' @ [LF]))
      = template_1 @ ''src/config.txt'' @ template_2 @ ''1'' @ template_3
                @ ''    s#(x)y#${1}z#g;'' @ template_4"
    by (simp add: script_of_unfolded is_linebreak_def is_digit_def match_group_def
        format_d.simps LF_def CR_def BSL_def)
  show ?thesis
    unfolding w_group_ref_def s[symmetric]
    by (subst gen_quiet[where rb = "''(x)y#'' @ [BSL] @ ''g<1>z'' @ [LF]"
          and fb = "''src/config.txt'' @ [LF]"])
       (simp_all add: quiet_world_def)
qed



section \<open>Refusing to overwrite\<close>

text \<open>
  C1, as amended. When a file exists at the output path, the invocation fails and leaves
  every file as it was, so the existing file keeps its bytes. The failure is
  \<open>FileExistsError\<close> whenever both input lists exist; a missing input is reported first,
  as \<open>FileNotFoundError\<close>.
\<close>

theorem existing_output_is_kept:
  assumes "files w output_path = Some old"
  shows "(\<exists>e. fst (make_domain_substitution_script regex_path files_path output_path w) = Inl e)
    \<and> files (snd (make_domain_substitution_script regex_path files_path output_path w)) = files w
    \<and> (files w regex_path \<noteq> None \<and> files w files_path \<noteq> None \<longrightarrow>
         fst (make_domain_substitution_script regex_path files_path output_path w)
           = Inl (FileExistsError output_path))"
proof (cases "files w regex_path")
  case None
  then show ?thesis by (simp add: gen_regex_missing)
next
  case (Some a)
  show ?thesis
  proof (cases "files w files_path")
    case None
    with Some show ?thesis by (simp add: gen_files_missing)
  next
    case (Some b)
    with \<open>files w regex_path = Some a\<close> assms show ?thesis
      by (simp add: gen_output_exists)
  qed
qed

theorem existing_output_is_kept_witness:
  "fst (make_domain_substitution_script ''domain_regex.list'' ''domain_substitution.list''
         ''gen.sh'' w_demo) = Inl (FileExistsError ''gen.sh'')
   \<and> files (snd (make_domain_substitution_script ''domain_regex.list''
         ''domain_substitution.list'' ''gen.sh'' w_demo)) ''gen.sh'' = Some (File ''old'')"
  using existing_output_is_kept [of w_demo "''gen.sh''" "File ''old''" "''domain_regex.list''"
      "''domain_substitution.list''"]
  by (simp add: w_demo_def quiet_world_def)

text \<open>The claim as first stated fails: with the rules list missing and a file at the output
  path, the failure is \<open>FileNotFoundError\<close>.\<close>

theorem existing_output_not_always_FileExistsError:
  "files w_no_rules ''gen.sh'' = Some (File ''old'')
   \<and> fst (make_domain_substitution_script ''domain_regex.list'' ''domain_substitution.list''
         ''gen.sh'' w_no_rules) = Inl (FileNotFoundError ''domain_regex.list'')
   \<and> fst (make_domain_substitution_script ''domain_regex.list'' ''domain_substitution.list''
         ''gen.sh'' w_no_rules) \<noteq> Inl (FileExistsError ''gen.sh'')"
  by (simp add: w_no_rules_def quiet_world_def make_domain_substitution_script_def
      path_exists_def)

section \<open>Missing inputs\<close>

text \<open>
  C2. When the rules path or the files path does not exist, the invocation fails with
  \<open>FileNotFoundError\<close> for the first missing path; the calls it made are existence checks
  only (no read, no open, no write), and the files are as before, so nothing was created at
  the output path.
\<close>

theorem missing_input_is_FileNotFoundError:
  assumes "files w regex_path = None \<or> files w files_path = None"
  shows "fst (make_domain_substitution_script regex_path files_path output_path w)
           = Inl (FileNotFoundError (if files w regex_path = None then regex_path else files_path))
    \<and> files (snd (make_domain_substitution_script regex_path files_path output_path w)) = files w
    \<and> (\<exists>evs. trace (snd (make_domain_substitution_script regex_path files_path output_path w))
                 = trace w @ evs
              \<and> (\<forall>e \<in> set evs. \<exists>p. e = Exists p))"
proof (cases "files w regex_path")
  case None
  then show ?thesis by (simp add: gen_regex_missing)
next
  case (Some a)
  with assms have "files w files_path = None" by simp
  with Some show ?thesis by (simp add: gen_files_missing)
qed

theorem missing_input_is_FileNotFoundError_witness:
  "fst (make_domain_substitution_script ''domain_regex.list'' ''domain_substitution.list''
         ''gen.sh'' w_no_files) = Inl (FileNotFoundError ''domain_substitution.list'')
   \<and> files (snd (make_domain_substitution_script ''domain_regex.list''
         ''domain_substitution.list'' ''gen.sh'' w_no_files)) ''gen.sh'' = None"
  using missing_input_is_FileNotFoundError [of w_no_files "''domain_regex.list''"
      "''domain_substitution.list''" "''gen.sh''"]
  by (simp add: w_no_files_def quiet_world_def)

section \<open>A rule with a line boundary of \<open>str.splitlines\<close>\<close>

text \<open>
  C3. The rules list whose only line is \<open>a\<close>, a form feed, \<open>b#c\<close> has one line that is not
  blank for every reader that ends lines at \<open>\n\<close>. The generator cuts it with
  \<open>str.splitlines\<close>, which also ends a line at a form feed: it reads the two rules \<open>a\<close> and
  \<open>b#c\<close>, and the script holds the two statements \<open>s#a#g;\<close> and \<open>s#b#c#g;\<close> for that one line.
\<close>

theorem form_feed_splits_a_rule:
  "filter (\<lambda>l. l \<noteq> []) (text_lines (''a'' @ [CHR 0x0C] @ ''b#c'' @ [LF]))
       = [''a'' @ [CHR 0x0C] @ ''b#c'']
   \<and> read_list (universal_newlines (''a'' @ [CHR 0x0C] @ ''b#c'' @ [LF])) = [''a'', ''b#c'']
   \<and> files (snd (make_domain_substitution_script ''domain_regex.list''
         ''domain_substitution.list'' ''gen.sh'' w_rule_form_feed)) ''gen.sh''
       = Some (File (render ''src/config.txt'' 1 (''    s#a#g;'' @ [LF] @ ''    s#b#c#g;'')))
   \<and> filter (\<lambda>l. l \<noteq> []) (text_lines (''    s#a#g;'' @ [LF] @ ''    s#b#c#g;''))
       = [''    s#a#g;'', ''    s#b#c#g;'']"
proof -
  have a: "filter (\<lambda>l. l \<noteq> []) (text_lines (''a'' @ [CHR 0x0C] @ ''b#c'' @ [LF]))
       = [''a'' @ [CHR 0x0C] @ ''b#c'']"
    by (simp add: LF_def)
  have b: "read_list (universal_newlines (''a'' @ [CHR 0x0C] @ ''b#c'' @ [LF])) = [''a'', ''b#c'']"
    by (simp add: read_list_def filter_len_def is_linebreak_def LF_def CR_def)
  have f: "read_list (universal_newlines (''src/config.txt'' @ [LF])) = [''src/config.txt'']"
    by (simp add: read_list_def filter_len_def is_linebreak_def LF_def CR_def)
  have s: "script_of (universal_newlines (''a'' @ [CHR 0x0C] @ ''b#c'' @ [LF]))
            (universal_newlines (''src/config.txt'' @ [LF]))
       = render ''src/config.txt'' 1 (''    s#a#g;'' @ [LF] @ ''    s#b#c#g;'')"
    unfolding script_of_def Let_def b f
    by (simp add: files_list_str_def perl_replace_list_str_def perl_replace_list_def
        statement_def match_group_def BSL_def)
  have "make_domain_substitution_script ''domain_regex.list''
         ''domain_substitution.list'' ''gen.sh'' w_rule_form_feed
       = (Inr (),
      (quiet_world [''domain_regex.list'' \<mapsto> File (''a'' @ [CHR 0x0C] @ ''b#c'' @ [LF]),
         ''domain_substitution.list'' \<mapsto> File (''src/config.txt'' @ [LF])])
       \<lparr>files := [''domain_regex.list'' \<mapsto> File (''a'' @ [CHR 0x0C] @ ''b#c'' @ [LF]),
         ''domain_substitution.list'' \<mapsto> File (''src/config.txt'' @ [LF]),
         ''gen.sh'' \<mapsto> File (script_of (universal_newlines (''a'' @ [CHR 0x0C] @ ''b#c'' @ [LF]))
            (universal_newlines (''src/config.txt'' @ [LF])))],
        trace := [Exists ''domain_regex.list'', Exists ''domain_substitution.list'',
           Exists ''gen.sh'', ReadText ''domain_regex.list'',
           ReadText ''domain_substitution.list'', OpenWrite ''gen.sh'',
           Write ''gen.sh'' (script_of (universal_newlines (''a'' @ [CHR 0x0C] @ ''b#c'' @ [LF]))
            (universal_newlines (''src/config.txt'' @ [LF])))]\<rparr>)"
    unfolding w_rule_form_feed_def by (rule gen_quiet) simp_all
  then have c: "files (snd (make_domain_substitution_script ''domain_regex.list''
         ''domain_substitution.list'' ''gen.sh'' w_rule_form_feed)) ''gen.sh''
       = Some (File (render ''src/config.txt'' 1 (''    s#a#g;'' @ [LF] @ ''    s#b#c#g;'')))"
    unfolding s by simp
  have d: "filter (\<lambda>l. l \<noteq> []) (text_lines (''    s#a#g;'' @ [LF] @ ''    s#b#c#g;''))
       = [''    s#a#g;'', ''    s#b#c#g;'']"
    by (simp add: LF_def)
  from a b c d show ?thesis by blast
qed

section \<open>Group references in the statements\<close>

text \<open>
  C4. Let \<open>r\<close> be a rule of a successful invocation and \<open>ds\<close> one or more digits. The
  statement emitted for \<open>r\<close> is a line of the substitution block of the script written. If
  \<open>r\<close> contains the Python group reference \<open>\g<ds>\<close>, the statement contains Perl's \<open>${ds}\<close> for
  the same digits; and the statement contains no \<open>\g<ds>\<close>, whatever the rule.
\<close>

theorem group_reference_is_translated:
  assumes "files w regex_path = Some (File regex_bytes)"
    and "decode w regex_bytes = Some regex_text"
    and "files w files_path = Some (File files_bytes)"
    and "decode w files_bytes = Some files_text"
    and "fst (make_domain_substitution_script regex_path files_path output_path w) = Inr ()"
    and "r \<in> set (filter (\<lambda>l. l \<noteq> []) (splitlines (universal_newlines regex_text)))"
    and "ds \<noteq> []" and "\<forall>c \<in> set ds. is_digit c"
  shows "let rules = filter (\<lambda>l. l \<noteq> []) (splitlines (universal_newlines regex_text));
             entries = filter (\<lambda>l. l \<noteq> []) (splitlines (universal_newlines files_text));
             block = join [LF] (map (\<lambda>r. ''    s#'' @ re_sub_group r @ ''#g;'') rules);
             emitted = ''    s#'' @ re_sub_group r @ ''#g;''
         in (\<exists>bytes.
               encode w (template_1 @ join [LF] entries @ template_2 @ format_d (length entries)
                          @ template_3 @ block @ template_4) = Some bytes
             \<and> files (snd (make_domain_substitution_script regex_path files_path output_path w))
                   output_path = Some (File bytes))
          \<and> emitted \<in> set (text_lines block)
          \<and> (sublist (group_ref_python ds) r \<longrightarrow> sublist (group_ref_perl ds) emitted)
          \<and> \<not> sublist (group_ref_python ds) emitted"
proof -
  define rules where "rules = filter (\<lambda>l. l \<noteq> []) (splitlines (universal_newlines regex_text))"
  have rl: "rules = read_list (universal_newlines regex_text)"
    by (simp add: rules_def read_list_def filter_len_conv)
  from assms(6) have r_in: "r \<in> set rules"
    unfolding rules_def .
  then have "rules \<noteq> []" by auto
  then have ne: "read_list (universal_newlines regex_text) \<noteq> []"
    unfolding rl .
  have "text_lines (perl_replace_list_str (read_list (universal_newlines regex_text)))
      = map statement (perl_replace_list (read_list (universal_newlines regex_text)))"
    using ne by (rule statement_block_text_lines)
  then have tl: "text_lines (join [LF] (map (\<lambda>r. ''    s#'' @ re_sub_group r @ ''#g;'') rules))
      = map (\<lambda>r. ''    s#'' @ re_sub_group r @ ''#g;'') rules"
    unfolding perl_replace_list_str_def statements_map rl .
  from r_in have mem: "''    s#'' @ re_sub_group r @ ''#g;''
      \<in> set (text_lines (join [LF] (map (\<lambda>r. ''    s#'' @ re_sub_group r @ ''#g;'') rules)))"
    unfolding tl by auto
  have "script_of (universal_newlines regex_text) (universal_newlines files_text)
      = template_1
          @ join [LF] (filter (\<lambda>l. l \<noteq> []) (splitlines (universal_newlines files_text)))
          @ template_2
          @ format_d (length (filter (\<lambda>l. l \<noteq> [])
               (splitlines (universal_newlines files_text))))
          @ template_3
          @ join [LF] (map (\<lambda>r. ''    s#'' @ re_sub_group r @ ''#g;'') rules)
          @ template_4"
    by (simp add: script_of_unfolded rules_def)
  with gen_success_script[OF assms(1-5)] have script: "\<exists>bytes.
      encode w (template_1
          @ join [LF] (filter (\<lambda>l. l \<noteq> []) (splitlines (universal_newlines files_text)))
          @ template_2
          @ format_d (length (filter (\<lambda>l. l \<noteq> [])
               (splitlines (universal_newlines files_text))))
          @ template_3
          @ join [LF] (map (\<lambda>r. ''    s#'' @ re_sub_group r @ ''#g;'') rules)
          @ template_4) = Some bytes
      \<and> files (snd (make_domain_substitution_script regex_path files_path output_path w))
            output_path = Some (File bytes)"
    by auto
  show ?thesis
    unfolding Let_def rules_def[symmetric]
    using script mem statement_has_perl_ref[OF assms(7,8)] statement_no_python_ref[OF assms(7,8)]
    by blast
qed

theorem group_reference_is_translated_witness:
  "files (snd (make_domain_substitution_script ''domain_regex.list''
       ''domain_substitution.list'' ''gen.sh'' w_group_ref)) ''gen.sh''
     = Some (File (template_1 @ ''src/config.txt'' @ template_2 @ ''1'' @ template_3
              @ ''    s#(x)y#${1}z#g;'' @ template_4))
   \<and> ''(x)y#'' @ [BSL] @ ''g<1>z''
       \<in> set (filter (\<lambda>l. l \<noteq> [])
             (splitlines (universal_newlines (''(x)y#'' @ [BSL] @ ''g<1>z'' @ [LF]))))
   \<and> sublist (group_ref_python ''1'') (''(x)y#'' @ [BSL] @ ''g<1>z'')
   \<and> ''    s#'' @ re_sub_group (''(x)y#'' @ [BSL] @ ''g<1>z'') @ ''#g;''
       \<in> set (text_lines (join [LF] (map (\<lambda>r. ''    s#'' @ re_sub_group r @ ''#g;'')
             (filter (\<lambda>l. l \<noteq> [])
               (splitlines (universal_newlines (''(x)y#'' @ [BSL] @ ''g<1>z'' @ [LF])))))))
   \<and> sublist (group_ref_perl ''1'') (''    s#'' @ re_sub_group (''(x)y#'' @ [BSL] @ ''g<1>z'') @ ''#g;'')
   \<and> \<not> sublist (group_ref_python ''1'')
         (''    s#'' @ re_sub_group (''(x)y#'' @ [BSL] @ ''g<1>z'') @ ''#g;'')
   \<and> ''    s#'' @ re_sub_group (''(x)y#'' @ [BSL] @ ''g<1>z'') @ ''#g;'' = ''    s#(x)y#${1}z#g;''"
proof -
  have f: "files w_group_ref ''domain_regex.list''
        = Some (File (''(x)y#'' @ [BSL] @ ''g<1>z'' @ [LF]))"
    "files w_group_ref ''domain_substitution.list'' = Some (File (''src/config.txt'' @ [LF]))"
    by (simp_all add: w_group_ref_def quiet_world_def)
  have d: "decode w_group_ref (''(x)y#'' @ [BSL] @ ''g<1>z'' @ [LF])
        = Some (''(x)y#'' @ [BSL] @ ''g<1>z'' @ [LF])"
    "decode w_group_ref (''src/config.txt'' @ [LF]) = Some (''src/config.txt'' @ [LF])"
    by (simp_all add: w_group_ref_def quiet_world_def latin1_def)
  have g: "fst (make_domain_substitution_script ''domain_regex.list''
       ''domain_substitution.list'' ''gen.sh'' w_group_ref) = Inr ()"
    by (simp add: gen_w_group_ref)
  have r: "''(x)y#'' @ [BSL] @ ''g<1>z''
       \<in> set (filter (\<lambda>l. l \<noteq> [])
             (splitlines (universal_newlines (''(x)y#'' @ [BSL] @ ''g<1>z'' @ [LF]))))"
    by (simp add: is_linebreak_def LF_def CR_def BSL_def)
  have ds: "''1'' \<noteq> []" "\<forall>c \<in> set ''1''. is_digit c"
    by (simp_all add: is_digit_def)
  have p: "sublist (group_ref_python ''1'') (''(x)y#'' @ [BSL] @ ''g<1>z'')"
    by (simp add: group_ref_python_def sublist_code(3) BSL_def)
  note t = group_reference_is_translated[OF f(1) d(1) f(2) d(2) g r ds, unfolded Let_def]
  from t have m: "''    s#'' @ re_sub_group (''(x)y#'' @ [BSL] @ ''g<1>z'') @ ''#g;''
       \<in> set (text_lines (join [LF] (map (\<lambda>r. ''    s#'' @ re_sub_group r @ ''#g;'')
             (filter (\<lambda>l. l \<noteq> [])
               (splitlines (universal_newlines (''(x)y#'' @ [BSL] @ ''g<1>z'' @ [LF])))))))"
    by (rule conjunct2[THEN conjunct1])
  from t p have q: "sublist (group_ref_perl ''1'')
      (''    s#'' @ re_sub_group (''(x)y#'' @ [BSL] @ ''g<1>z'') @ ''#g;'')"
    by blast
  from t have n: "\<not> sublist (group_ref_python ''1'')
         (''    s#'' @ re_sub_group (''(x)y#'' @ [BSL] @ ''g<1>z'') @ ''#g;'')"
    by blast
  have c: "files (snd (make_domain_substitution_script ''domain_regex.list''
       ''domain_substitution.list'' ''gen.sh'' w_group_ref)) ''gen.sh''
     = Some (File (template_1 @ ''src/config.txt'' @ template_2 @ ''1'' @ template_3
              @ ''    s#(x)y#${1}z#g;'' @ template_4))"
    by (simp add: gen_w_group_ref)
  have e: "''    s#'' @ re_sub_group (''(x)y#'' @ [BSL] @ ''g<1>z'') @ ''#g;''
      = ''    s#(x)y#${1}z#g;''"
    by (simp add: match_group_def is_digit_def BSL_def)
  from c r p m q n e show ?thesis by (intro conjI)
qed

section \<open>A file path with a line boundary of \<open>str.splitlines\<close>\<close>

text \<open>
  C5. The files list whose only line is \<open>a\<close>, a form feed, \<open>b\<close> has one line for every reader
  that ends lines at \<open>\n\<close>, as the tools of the emitted script do. The generator cuts it with
  \<open>str.splitlines\<close>, which also ends a line at a form feed: it reads the two entries \<open>a\<close>
  and \<open>b\<close>, counts 2 files, and the block of \<open>print_file_list\<close> holds the lines \<open>a\<close> and \<open>b\<close>.
  The path with the form feed is not in the script.
\<close>

theorem form_feed_splits_a_file_path:
  "text_lines (''a'' @ [CHR 0x0C] @ ''b'' @ [LF]) = [''a'' @ [CHR 0x0C] @ ''b'', []]
   \<and> read_list (universal_newlines (''a'' @ [CHR 0x0C] @ ''b'' @ [LF])) = [''a'', ''b'']
   \<and> files (snd (make_domain_substitution_script ''domain_regex.list''
         ''domain_substitution.list'' ''gen.sh'' w_form_feed)) ''gen.sh''
       = Some (File (render (''a'' @ [LF] @ ''b'') 2 ''    s#a#b#g;''))
   \<and> file_list_block (render (''a'' @ [LF] @ ''b'') 2 ''    s#a#b#g;'') = [''a'', ''b'']
   \<and> ''a'' @ [CHR 0x0C] @ ''b''
       \<notin> set (file_list_block (render (''a'' @ [LF] @ ''b'') 2 ''    s#a#b#g;''))"
proof -
  have a: "text_lines (''a'' @ [CHR 0x0C] @ ''b'' @ [LF]) = [''a'' @ [CHR 0x0C] @ ''b'', []]"
    by (simp add: LF_def)
  have b: "read_list (universal_newlines (''a'' @ [CHR 0x0C] @ ''b'' @ [LF])) = [''a'', ''b'']"
    by (simp add: read_list_def filter_len_def is_linebreak_def LF_def CR_def)
  have r: "read_list (universal_newlines (''a#b'' @ [LF])) = [''a#b'']"
    by (simp add: read_list_def filter_len_def is_linebreak_def LF_def CR_def)
  have s: "script_of (universal_newlines (''a#b'' @ [LF]))
            (universal_newlines (''a'' @ [CHR 0x0C] @ ''b'' @ [LF]))
       = render (''a'' @ [LF] @ ''b'') 2 ''    s#a#b#g;''"
    unfolding script_of_def Let_def b r
    by (simp add: files_list_str_def perl_replace_list_str_def perl_replace_list_def
        statement_def match_group_def BSL_def numeral_2_eq_2)
  have "make_domain_substitution_script ''domain_regex.list''
         ''domain_substitution.list'' ''gen.sh'' w_form_feed
       = (Inr (),
      (quiet_world [''domain_regex.list'' \<mapsto> File (''a#b'' @ [LF]),
         ''domain_substitution.list'' \<mapsto> File (''a'' @ [CHR 0x0C] @ ''b'' @ [LF])])
       \<lparr>files := [''domain_regex.list'' \<mapsto> File (''a#b'' @ [LF]),
         ''domain_substitution.list'' \<mapsto> File (''a'' @ [CHR 0x0C] @ ''b'' @ [LF]),
         ''gen.sh'' \<mapsto> File (script_of (universal_newlines (''a#b'' @ [LF]))
            (universal_newlines (''a'' @ [CHR 0x0C] @ ''b'' @ [LF])))],
        trace := [Exists ''domain_regex.list'', Exists ''domain_substitution.list'',
           Exists ''gen.sh'', ReadText ''domain_regex.list'',
           ReadText ''domain_substitution.list'', OpenWrite ''gen.sh'',
           Write ''gen.sh'' (script_of (universal_newlines (''a#b'' @ [LF]))
            (universal_newlines (''a'' @ [CHR 0x0C] @ ''b'' @ [LF])))]\<rparr>)"
    unfolding w_form_feed_def by (rule gen_quiet) simp_all
  then have c: "files (snd (make_domain_substitution_script ''domain_regex.list''
         ''domain_substitution.list'' ''gen.sh'' w_form_feed)) ''gen.sh''
       = Some (File (render (''a'' @ [LF] @ ''b'') 2 ''    s#a#b#g;''))"
    unfolding s by simp
  have "file_list_block (render (files_list_str [''a'', ''b'']) 2 ''    s#a#b#g;'')
      = takeWhile (\<lambda>l. l \<noteq> ''__END__'') (if [''a'', ''b''] = [] then [[]] else [''a'', ''b''])"
    by (rule file_list_block_render) (simp add: LF_def)
  then have d: "file_list_block (render (''a'' @ [LF] @ ''b'') 2 ''    s#a#b#g;'') = [''a'', ''b'']"
    by (simp add: files_list_str_def)
  from d have e: "''a'' @ [CHR 0x0C] @ ''b''
       \<notin> set (file_list_block (render (''a'' @ [LF] @ ''b'') 2 ''    s#a#b#g;''))"
    by simp
  from a b c d e show ?thesis by blast
qed

section \<open>The form of a statement\<close>



section \<open>The frame of an invocation\<close>




text \<open>When the directory of the output path is missing, \<open>open\<close> raises and no file is
  created.\<close>

theorem open_failure_creates_nothing:
  "fst (make_domain_substitution_script ''domain_regex.list'' ''domain_substitution.list''
         ''nodir/gen.sh'' w_no_dir) = Inl (FileNotFoundError ''nodir/gen.sh'')
   \<and> files (snd (make_domain_substitution_script ''domain_regex.list''
         ''domain_substitution.list'' ''nodir/gen.sh'' w_no_dir)) = files w_no_dir"
proof -
  have f: "files w_no_dir ''domain_regex.list'' = Some (File (''foo#bar'' @ [LF]))"
    "files w_no_dir ''domain_substitution.list'' = Some (File (''src/config.txt'' @ [LF]))"
    "files w_no_dir ''nodir/gen.sh'' = None"
    by (simp_all add: w_no_dir_def w_fresh_def quiet_world_def)
  show ?thesis
    unfolding gen_past_guards[OF f]
    by (simp add: read_text_def open_w_def Let_def w_no_dir_def w_fresh_def
        quiet_world_def latin1_def)
qed

section \<open>What the script depends on\<close>

text \<open>
  C8, as amended. Take two invocations, in any two worlds with the same locale encoding and
  under any path names, whose rules lists have the same bytes and whose files lists have the
  same bytes. If both succeed, they write the same bytes: the encoding of the script of the
  two decoded texts.
\<close>

theorem output_determined_by_list_contents:
  assumes "files w regex_path = Some (File regex_bytes)"
    and "files w' regex_path' = Some (File regex_bytes)"
    and "files w files_path = Some (File files_bytes)"
    and "files w' files_path' = Some (File files_bytes)"
    and "decode w' = decode w" and "encode w' = encode w"
    and "fst (make_domain_substitution_script regex_path files_path output_path w) = Inr ()"
    and "fst (make_domain_substitution_script regex_path' files_path' output_path' w') = Inr ()"
  shows "files (snd (make_domain_substitution_script regex_path' files_path' output_path' w'))
           output_path'
         = files (snd (make_domain_substitution_script regex_path files_path output_path w))
             output_path
    \<and> (\<exists>regex_text files_text bytes.
          decode w regex_bytes = Some regex_text \<and> decode w files_bytes = Some files_text
        \<and> encode w (script_of (universal_newlines regex_text) (universal_newlines files_text))
            = Some bytes
        \<and> files (snd (make_domain_substitution_script regex_path files_path output_path w))
              output_path = Some (File bytes))"
proof -
  from gen_Inr_D[OF assms(7)] assms(1,3) obtain rt ft where
    d: "decode w regex_bytes = Some rt" "decode w files_bytes = Some ft"
    by auto
  from gen_success_script[OF assms(1) d(1) assms(3) d(2) assms(7)] obtain bytes where
    b: "encode w (script_of (universal_newlines rt) (universal_newlines ft)) = Some bytes"
      "files (snd (make_domain_substitution_script regex_path files_path output_path w))
         output_path = Some (File bytes)"
    by blast
  from d assms(5) have d': "decode w' regex_bytes = Some rt" "decode w' files_bytes = Some ft"
    by simp_all
  from gen_success_script[OF assms(2) d'(1) assms(4) d'(2) assms(8)] obtain bytes' where
    b': "encode w' (script_of (universal_newlines rt) (universal_newlines ft)) = Some bytes'"
      "files (snd (make_domain_substitution_script regex_path' files_path' output_path' w'))
         output_path' = Some (File bytes')"
    by blast
  from b(1) b'(1) assms(6) have "bytes' = bytes" by simp
  with b(2) b'(2) have same: "files (snd (make_domain_substitution_script regex_path' files_path'
        output_path' w')) output_path'
      = files (snd (make_domain_substitution_script regex_path files_path output_path w))
          output_path"
    by simp
  from d b have "\<exists>regex_text files_text bytes.
          decode w regex_bytes = Some regex_text \<and> decode w files_bytes = Some files_text
        \<and> encode w (script_of (universal_newlines regex_text) (universal_newlines files_text))
            = Some bytes
        \<and> files (snd (make_domain_substitution_script regex_path files_path output_path w))
              output_path = Some (File bytes)"
    by (intro exI conjI)
  with same show ?thesis by (rule conjI)
qed

theorem output_determined_by_list_contents_witness:
  "files (snd (make_domain_substitution_script ''r2'' ''f2'' ''out2.sh'' w_other)) ''out2.sh''
     = files (snd (make_domain_substitution_script ''domain_regex.list''
         ''domain_substitution.list'' ''gen.sh'' w_fresh)) ''gen.sh''
   \<and> files (snd (make_domain_substitution_script ''domain_regex.list''
         ''domain_substitution.list'' ''gen.sh'' w_fresh)) ''gen.sh''
       = Some (File (template_1 @ ''src/config.txt'' @ template_2 @ ''1'' @ template_3
                @ ''    s#foo#bar#g;'' @ template_4))"
  using output_determined_by_list_contents [of w_fresh "''domain_regex.list''"
      "''foo#bar'' @ [LF]" w_other "''r2''" "''domain_substitution.list''"
      "''src/config.txt'' @ [LF]" "''f2''" "''gen.sh''" "''out2.sh''"]
    gen_w_other
  by (simp add: gen_w_fresh) (simp add: w_fresh_def w_other_def quiet_world_def)

text \<open>The claim as first stated fails: the same two lists, with a byte \<open>0xE9\<close> in a path, give
  a script under an ISO-8859-1 locale and \<open>UnicodeDecodeError\<close>, with no script, under an
  ASCII locale.\<close>

theorem same_lists_other_locale:
  "files w_cafe_ascii = files w_cafe_latin1
   \<and> fst (make_domain_substitution_script ''domain_regex.list'' ''domain_substitution.list''
         ''gen.sh'' w_cafe_latin1) = Inr ()
   \<and> files (snd (make_domain_substitution_script ''domain_regex.list''
         ''domain_substitution.list'' ''gen.sh'' w_cafe_latin1)) ''gen.sh'' \<noteq> None
   \<and> fst (make_domain_substitution_script ''domain_regex.list'' ''domain_substitution.list''
         ''gen.sh'' w_cafe_ascii) = Inl (UnicodeDecodeError ''domain_substitution.list'')
   \<and> files (snd (make_domain_substitution_script ''domain_regex.list''
         ''domain_substitution.list'' ''gen.sh'' w_cafe_ascii)) ''gen.sh'' = None"
proof -
  have a: "files w_cafe_ascii = files w_cafe_latin1"
    by (simp add: w_cafe_ascii_def w_cafe_latin1_def quiet_world_def)
  have l: "make_domain_substitution_script ''domain_regex.list'' ''domain_substitution.list''
         ''gen.sh'' w_cafe_latin1
      = (Inr (),
      (quiet_world cafe_files)\<lparr>files := cafe_files(''gen.sh'' \<mapsto>
          File (script_of (universal_newlines (''a#b'' @ [LF]))
                 (universal_newlines (''caf'' @ [CHR 0xE9] @ ''.txt'' @ [LF])))),
        trace := [Exists ''domain_regex.list'', Exists ''domain_substitution.list'',
           Exists ''gen.sh'', ReadText ''domain_regex.list'',
           ReadText ''domain_substitution.list'', OpenWrite ''gen.sh'',
           Write ''gen.sh'' (script_of (universal_newlines (''a#b'' @ [LF]))
                 (universal_newlines (''caf'' @ [CHR 0xE9] @ ''.txt'' @ [LF])))]\<rparr>)"
    unfolding w_cafe_latin1_def
    by (rule gen_quiet) (simp_all add: cafe_files_def)
  have f: "files w_cafe_ascii ''domain_regex.list'' = Some (File (''a#b'' @ [LF]))"
    "files w_cafe_ascii ''domain_substitution.list''
       = Some (File (''caf'' @ [CHR 0xE9] @ ''.txt'' @ [LF]))"
    "files w_cafe_ascii ''gen.sh'' = None"
    by (simp_all add: w_cafe_ascii_def cafe_files_def quiet_world_def)
  have s: "make_domain_substitution_script ''domain_regex.list'' ''domain_substitution.list''
         ''gen.sh'' w_cafe_ascii
      = (Inl (UnicodeDecodeError ''domain_substitution.list''),
         w_cafe_ascii\<lparr>trace := [Exists ''domain_regex.list'', Exists ''domain_substitution.list'',
           Exists ''gen.sh'', ReadText ''domain_regex.list'',
           ReadText ''domain_substitution.list'']\<rparr>)"
    unfolding gen_past_guards[OF f]
    by (simp add: read_text_def Let_def w_cafe_ascii_def cafe_files_def quiet_world_def
        ascii_def LF_def)
  show ?thesis
    unfolding l s using a f(3) by simp
qed

section \<open>A line that is a form feed\<close>

text \<open>
  C9. In the files list \<open>x\<close>, form feed, vertical tab, \<open>y\<close>, one per line, the second and
  third line are not empty and consist of white space only. The generator does not keep
  them: \<open>str.splitlines\<close> ends a line at each of the two characters, the pieces are empty and
  the filter drops them. The entries read are \<open>x\<close> and \<open>y\<close>, and the block of \<open>print_file_list\<close>
  holds these two lines.
\<close>

theorem form_feed_line_is_dropped:
  "text_lines (''x'' @ [LF, CHR 0x0C, LF, CHR 0x0B, LF] @ ''y'' @ [LF])
       = [''x'', [CHR 0x0C], [CHR 0x0B], ''y'', []]
   \<and> isspace (CHR 0x0C) \<and> isspace (CHR 0x0B)
   \<and> read_list (universal_newlines (''x'' @ [LF, CHR 0x0C, LF, CHR 0x0B, LF] @ ''y'' @ [LF]))
       = [''x'', ''y'']
   \<and> files (snd (make_domain_substitution_script ''domain_regex.list''
         ''domain_substitution.list'' ''gen.sh'' w_form_feed_line)) ''gen.sh''
       = Some (File (render (''x'' @ [LF] @ ''y'') 2 ''    s#a#b#g;''))
   \<and> file_list_block (render (''x'' @ [LF] @ ''y'') 2 ''    s#a#b#g;'') = [''x'', ''y'']"
proof -
  have a: "text_lines (''x'' @ [LF, CHR 0x0C, LF, CHR 0x0B, LF] @ ''y'' @ [LF])
       = [''x'', [CHR 0x0C], [CHR 0x0B], ''y'', []]"
    by (simp add: LF_def)
  have w: "isspace (CHR 0x0C) \<and> isspace (CHR 0x0B)"
    by (simp add: isspace_def)
  have b: "read_list (universal_newlines (''x'' @ [LF, CHR 0x0C, LF, CHR 0x0B, LF] @ ''y'' @ [LF]))
       = [''x'', ''y'']"
    by (simp add: read_list_def filter_len_def is_linebreak_def LF_def CR_def)
  have r: "read_list (universal_newlines (''a#b'' @ [LF])) = [''a#b'']"
    by (simp add: read_list_def filter_len_def is_linebreak_def LF_def CR_def)
  have s: "script_of (universal_newlines (''a#b'' @ [LF]))
            (universal_newlines (''x'' @ [LF, CHR 0x0C, LF, CHR 0x0B, LF] @ ''y'' @ [LF]))
       = render (''x'' @ [LF] @ ''y'') 2 ''    s#a#b#g;''"
    unfolding script_of_def Let_def b r
    by (simp add: files_list_str_def perl_replace_list_str_def perl_replace_list_def
        statement_def match_group_def BSL_def numeral_2_eq_2)
  have "make_domain_substitution_script ''domain_regex.list''
         ''domain_substitution.list'' ''gen.sh'' w_form_feed_line
       = (Inr (),
      (quiet_world [''domain_regex.list'' \<mapsto> File (''a#b'' @ [LF]),
         ''domain_substitution.list'' \<mapsto>
           File (''x'' @ [LF, CHR 0x0C, LF, CHR 0x0B, LF] @ ''y'' @ [LF])])
       \<lparr>files := [''domain_regex.list'' \<mapsto> File (''a#b'' @ [LF]),
         ''domain_substitution.list'' \<mapsto>
           File (''x'' @ [LF, CHR 0x0C, LF, CHR 0x0B, LF] @ ''y'' @ [LF]),
         ''gen.sh'' \<mapsto> File (script_of (universal_newlines (''a#b'' @ [LF]))
            (universal_newlines (''x'' @ [LF, CHR 0x0C, LF, CHR 0x0B, LF] @ ''y'' @ [LF])))],
        trace := [Exists ''domain_regex.list'', Exists ''domain_substitution.list'',
           Exists ''gen.sh'', ReadText ''domain_regex.list'',
           ReadText ''domain_substitution.list'', OpenWrite ''gen.sh'',
           Write ''gen.sh'' (script_of (universal_newlines (''a#b'' @ [LF]))
            (universal_newlines (''x'' @ [LF, CHR 0x0C, LF, CHR 0x0B, LF] @ ''y'' @ [LF])))]\<rparr>)"
    unfolding w_form_feed_line_def by (rule gen_quiet) simp_all
  then have c: "files (snd (make_domain_substitution_script ''domain_regex.list''
         ''domain_substitution.list'' ''gen.sh'' w_form_feed_line)) ''gen.sh''
       = Some (File (render (''x'' @ [LF] @ ''y'') 2 ''    s#a#b#g;''))"
    unfolding s by simp
  have "file_list_block (render (files_list_str [''x'', ''y'']) 2 ''    s#a#b#g;'')
      = takeWhile (\<lambda>l. l \<noteq> ''__END__'') (if [''x'', ''y''] = [] then [[]] else [''x'', ''y''])"
    by (rule file_list_block_render) (simp add: LF_def)
  then have d: "file_list_block (render (''x'' @ [LF] @ ''y'') 2 ''    s#a#b#g;'') = [''x'', ''y'']"
    by (simp add: files_list_str_def)
  from a w b c d show ?thesis by blast
qed

section \<open>An empty files list\<close>

text \<open>
  C10. When the files list has no line that is not empty, the script of a successful
  invocation is the template with nothing in place of the file list and \<open>0\<close> as the count.
  The block of \<open>print_file_list\<close>, that is the lines between the opening line of the
  here-document and its delimiter, is then one empty line, and the progress line of the
  substitution reports 0 files.
\<close>

theorem empty_files_list_gives_one_blank_line:
  assumes "files w regex_path = Some (File regex_bytes)"
    and "decode w regex_bytes = Some regex_text"
    and "files w files_path = Some (File files_bytes)"
    and "decode w files_bytes = Some files_text"
    and "fst (make_domain_substitution_script regex_path files_path output_path w) = Inr ()"
    and "filter (\<lambda>l. l \<noteq> []) (splitlines (universal_newlines files_text)) = []"
  shows "let script = template_1 @ [] @ template_2 @ ''0'' @ template_3
                 @ perl_replace_list_str (read_list (universal_newlines regex_text)) @ template_4
         in (\<exists>bytes. encode w script = Some bytes
               \<and> files (snd (make_domain_substitution_script regex_path files_path
                     output_path w)) output_path = Some (File bytes))
          \<and> file_list_block script = [[]]
          \<and> ''echo '' @ [DQ] @ ''Applying ungoogled-chromium domain substitution to 0 files ...''
                @ [DQ] \<in> set (text_lines script)"
proof -
  define block where "block = perl_replace_list_str (read_list (universal_newlines regex_text))"
  have e: "read_list (universal_newlines files_text) = []"
    using assms(6) by (simp add: read_list_def filter_len_conv)
  have f0: "format_d 0 = ''0''" by (simp add: format_d.simps)
  have r: "render (files_list_str []) 0 block
      = template_1 @ [] @ template_2 @ ''0'' @ template_3 @ block @ template_4"
    by (simp add: render_def files_list_str_def f0)
  have "script_of (universal_newlines regex_text) (universal_newlines files_text)
      = render (files_list_str []) 0 block"
    by (simp add: script_of_def Let_def e block_def)
  with gen_success_script[OF assms(1-5)] have script: "\<exists>bytes.
      encode w (render (files_list_str []) 0 block) = Some bytes
      \<and> files (snd (make_domain_substitution_script regex_path files_path output_path w))
            output_path = Some (File bytes)"
    by auto
  have blk: "file_list_block (render (files_list_str []) 0 block) = [[]]"
    by (subst file_list_block_render) simp_all
  have "progress_line 0 \<in> set (text_lines (render (files_list_str []) 0 block))"
    by (rule progress_line_in_render) simp
  then have msg: "''echo '' @ [DQ] @ ''Applying ungoogled-chromium domain substitution to 0 files ...''
      @ [DQ] \<in> set (text_lines (render (files_list_str []) 0 block))"
    by (simp add: progress_line_def f0)
  show ?thesis
    unfolding Let_def block_def[symmetric] r[symmetric]
    using script blk msg by blast
qed

theorem empty_files_list_gives_one_blank_line_witness:
  "files (snd (make_domain_substitution_script ''domain_regex.list''
       ''domain_substitution.list'' ''gen.sh'' w_no_entries)) ''gen.sh''
     = Some (File (template_1 @ template_2 @ ''0'' @ template_3 @ ''    s#a#b#g;'' @ template_4))
   \<and> file_list_block (template_1 @ template_2 @ ''0'' @ template_3 @ ''    s#a#b#g;'' @ template_4)
       = [[]]"
proof -
  have f: "files w_no_entries ''domain_regex.list'' = Some (File (''a#b'' @ [LF]))"
    "files w_no_entries ''domain_substitution.list'' = Some (File [LF, LF])"
    by (simp_all add: w_no_entries_def quiet_world_def)
  have d: "decode w_no_entries (''a#b'' @ [LF]) = Some (''a#b'' @ [LF])"
    "decode w_no_entries [LF, LF] = Some [LF, LF]"
    by (simp_all add: w_no_entries_def quiet_world_def latin1_def)
  have g: "fst (make_domain_substitution_script ''domain_regex.list''
       ''domain_substitution.list'' ''gen.sh'' w_no_entries) = Inr ()"
    by (simp add: gen_w_no_entries)
  have e: "filter (\<lambda>l. l \<noteq> []) (splitlines (universal_newlines [LF, LF])) = []"
    by (simp add: is_linebreak_def LF_def CR_def)
  have b: "perl_replace_list_str (read_list (universal_newlines (''a#b'' @ [LF])))
      = ''    s#a#b#g;''"
    by (simp add: perl_replace_list_str_def perl_replace_list_def statement_def read_list_def
        filter_len_def is_linebreak_def match_group_def LF_def CR_def BSL_def)
  have "file_list_block (template_1 @ [] @ template_2 @ ''0'' @ template_3
                 @ ''    s#a#b#g;'' @ template_4) = [[]]"
    using empty_files_list_gives_one_blank_line[OF f(1) d(1) f(2) d(2) g e,
        unfolded Let_def b, THEN conjunct2, THEN conjunct1] .
  then have a: "file_list_block (template_1 @ template_2 @ ''0'' @ template_3
                 @ ''    s#a#b#g;'' @ template_4) = [[]]"
    by simp
  have c: "files (snd (make_domain_substitution_script ''domain_regex.list''
       ''domain_substitution.list'' ''gen.sh'' w_no_entries)) ''gen.sh''
     = Some (File (template_1 @ template_2 @ ''0'' @ template_3 @ ''    s#a#b#g;'' @ template_4))"
    by (simp add: gen_w_no_entries)
  from c a show ?thesis by (rule conjI)
qed

end
